theory Spec2Isabelle
  imports Complex_Main "HOL-Library.Sublist"
begin

section \<open>Python strings\<close>

text \<open>
  A Python \<^verbatim>\<open>str\<close> is a sequence of Unicode code points: \<^verbatim>\<open>len\<close> and slicing count code
  points. A string is therefore modelled as a list of code points (natural numbers), and
  \<open>ascii\<close> embeds an ASCII literal.
\<close>

type_synonym codepoint = nat
type_synonym str = "codepoint list"

definition ascii :: "string \<Rightarrow> str" where
  "ascii s = map of_char s"

text \<open>
  The code points for which \<^verbatim>\<open>str.isspace()\<close> holds. \<^verbatim>\<open>str.strip()\<close>, \<^verbatim>\<open>str.split()\<close> and the
  regular-expression class \<^verbatim>\<open>\s\<close> (on \<^verbatim>\<open>str\<close> patterns) all use this one set.
\<close>

definition is_space :: "codepoint \<Rightarrow> bool" where
  "is_space c \<longleftrightarrow>
     (9 \<le> c \<and> c \<le> 13) \<or> (28 \<le> c \<and> c \<le> 32) \<or> c = 133 \<or> c = 160 \<or> c = 5760 \<or>
     (8192 \<le> c \<and> c \<le> 8202) \<or> c = 8232 \<or> c = 8233 \<or> c = 8239 \<or> c = 8287 \<or> c = 12288"

text \<open>\<^verbatim>\<open>s.strip()\<close>: leading and trailing whitespace removed.\<close>

definition strip :: "str \<Rightarrow> str" where
  "strip s = rev (dropWhile is_space (rev (dropWhile is_space s)))"

text \<open>
  \<^verbatim>\<open>s.split()\<close>: the maximal runs of non-whitespace code points, in order. The first
  argument is the word being read.
\<close>

fun split_from :: "str \<Rightarrow> str \<Rightarrow> str list" where
  "split_from w [] = (if w = [] then [] else [w])"
| "split_from w (c # cs) =
     (if is_space c then (if w = [] then split_from [] cs else w # split_from [] cs)
      else split_from (w @ [c]) cs)"

definition split_ws :: "str \<Rightarrow> str list" where
  "split_ws s = split_from [] s"

text \<open>\<^verbatim>\<open>sep.join(xs)\<close>.\<close>

fun join :: "str \<Rightarrow> str list \<Rightarrow> str" where
  "join sep [] = []"
| "join sep [x] = x"
| "join sep (x # y # ys) = x @ sep @ join sep (y # ys)"

text \<open>
  Python's \<^verbatim>\<open>xs[-n:]\<close> for \<open>n > 0\<close>: the last \<open>n\<close> elements, the whole list when it has
  fewer.
\<close>

definition lastn :: "nat \<Rightarrow> 'a list \<Rightarrow> 'a list" where
  "lastn n xs = drop (length xs - n) xs"

section \<open>Input sanitization (rag.py)\<close>

definition MAX_INPUT_LENGTH :: nat where
  "MAX_INPUT_LENGTH = 500"

definition MAX_HISTORY_MESSAGES :: nat where
  "MAX_HISTORY_MESSAGES = 6"

text \<open>The values a caller can pass as \<^verbatim>\<open>query\<close>: Python is dynamically typed.\<close>

datatype py_value = PyNone | PyStr str | PyInt int | PyBool bool

text \<open>\<^verbatim>\<open>re.sub(r'\x00', '', query)\<close>: every NUL code point removed.\<close>

definition remove_nul :: "str \<Rightarrow> str" where
  "remove_nul s = filter (\<lambda>c. c \<noteq> 0) s"

text \<open>
  \<^verbatim>\<open>re.sub(r'\s+', ' ', query)\<close>: every maximal run of whitespace replaced by one space
  (code point 32).
\<close>

function collapse_ws :: "str \<Rightarrow> str" where
  "collapse_ws [] = []"
| "collapse_ws (c # cs) =
     (if is_space c then 32 # collapse_ws (dropWhile is_space cs) else c # collapse_ws cs)"
  by pat_completeness auto
termination
  by (relation "measure length") (auto simp: length_dropWhile_le less_Suc_eq_le)

text \<open>
  \<^verbatim>\<open>
  def sanitize_input(self, query):
      if not query or not isinstance(query, str):
          return ""
      query = query.strip()[:MAX_INPUT_LENGTH]
      query = re.sub(r'\x00', '', query)
      query = re.sub(r'\s+', ' ', query)
      return query
  \<close>
\<close>

fun sanitize_input :: "py_value \<Rightarrow> str" where
  "sanitize_input (PyStr q) =
     (if q = [] then []
      else collapse_ws (remove_nul (take MAX_INPUT_LENGTH (strip q))))"
| "sanitize_input _ = []"

section \<open>Python floats\<close>

text \<open>
  A Python \<^verbatim>\<open>float\<close> is an IEEE 754 binary64 value: a finite double, an infinity or a
  NaN. A finite double is modelled by the rational number it denotes (the two zeros are
  one value: both are falsy and both give \<open>1 - 0 = 1\<close>).
\<close>

datatype pyfloat = Finite rat | PosInf | NegInf | NaN

text \<open>The nearest integer, a tie going to the even one.\<close>

definition round_half_even :: "rat \<Rightarrow> int" where
  "round_half_even x =
     (let f = \<lfloor>x\<rfloor>; r = x - of_int f
      in if r < 1 / 2 then f else if 1 / 2 < r then f + 1 else if even f then f else f + 1)"

text \<open>
  \<open>ilog2 x\<close> is the binary exponent (the floor of the binary logarithm) of a positive rational, from the bit
  lengths of its numerator and denominator; \<open>ulp x\<close> is the spacing of the doubles around
  \<open>x\<close> (53 bits of precision, the subnormal spacing below \<open>2 powi (- 1022)\<close>).
\<close>

fun bits :: "nat \<Rightarrow> nat" where
  "bits n = (if n = 0 then 0 else Suc (bits (n div 2)))"

declare bits.simps [simp del]

definition ilog2 :: "rat \<Rightarrow> int" where
  "ilog2 x =
     (let (p, q) = quotient_of x;
          e = int (bits (nat p)) - int (bits (nat q))
      in if 2 powi e \<le> x then e else e - 1)"

definition ulp :: "rat \<Rightarrow> rat" where
  "ulp x = 2 powi (max (ilog2 \<bar>x\<bar>) (- 1022) - 52)"

text \<open>
  The result of an arithmetic operation whose exact value is \<open>x\<close>: the double nearest to
  \<open>x\<close>, a tie going to the even significand, an infinity when the rounded value
  reaches \<open>2 ^ 1024\<close>.
\<close>

definition round_double :: "rat \<Rightarrow> pyfloat" where
  "round_double x =
     (if x = 0 then Finite 0
      else
        (let y = of_int (round_half_even (x / ulp x)) * ulp x
         in if 2 ^ 1024 \<le> \<bar>y\<bar> then (if 0 < x then PosInf else NegInf) else Finite y))"

text \<open>Subtraction of floats.\<close>

fun float_sub :: "pyfloat \<Rightarrow> pyfloat \<Rightarrow> pyfloat" where
  "float_sub NaN _ = NaN"
| "float_sub _ NaN = NaN"
| "float_sub (Finite x) (Finite y) = round_double (x - y)"
| "float_sub (Finite _) PosInf = NegInf"
| "float_sub (Finite _) NegInf = PosInf"
| "float_sub PosInf PosInf = NaN"
| "float_sub PosInf _ = PosInf"
| "float_sub NegInf NegInf = NaN"
| "float_sub NegInf _ = NegInf"

text \<open>
  \<^verbatim>\<open>round(x, 3)\<close>: a NaN or an infinity is returned as it is; a finite \<open>x\<close> is rounded
  to three decimals on its exact value, a tie going to the even digit, and the decimal
  result is converted back to the nearest double.
\<close>

fun py_round3 :: "pyfloat \<Rightarrow> pyfloat" where
  "py_round3 (Finite x) = round_double (of_int (round_half_even (x * 1000)) / 1000)"
| "py_round3 f = f"

text \<open>The truth value of a float: only zero is falsy (a NaN is truthy).\<close>

definition float_truthy :: "pyfloat \<Rightarrow> bool" where
  "float_truthy d \<longleftrightarrow> d \<noteq> Finite 0"

text \<open>The comparison \<^verbatim>\<open><=\<close> of floats: false when a NaN is compared.\<close>

fun float_le :: "pyfloat \<Rightarrow> pyfloat \<Rightarrow> bool" where
  "float_le NaN _ = False"
| "float_le _ NaN = False"
| "float_le (Finite x) (Finite y) = (x \<le> y)"
| "float_le NegInf _ = True"
| "float_le _ PosInf = True"
| "float_le _ _ = False"

section \<open>Retrieval (rag.py)\<close>

text \<open>The exceptions the modelled code can raise to its caller.\<close>

datatype py_error = TypeError | IndexError | KeyError

text \<open>Chunk metadata is a dict from strings to strings; \<^verbatim>\<open>meta.get(key, default)\<close>.\<close>

type_synonym metadata = "str \<rightharpoonup> str"

definition dict_get :: "metadata \<Rightarrow> str \<Rightarrow> str \<Rightarrow> str" where
  "dict_get m k d = (case m k of None \<Rightarrow> d | Some v \<Rightarrow> v)"

text \<open>
  The store's answer to \<^verbatim>\<open>collection.query\<close>: per query embedding one list of documents, of
  metadata dicts and of distances; a field the store does not supply is \<^verbatim>\<open>None\<close>.
  Distances are floats.
\<close>

record query_result =
  documents :: "str list list option"
  metadatas :: "metadata list list option"
  distances :: "pyfloat list list option"

record retrieved_source =
  site :: str
  source :: str
  ville :: str
  periode :: str
  coordonnees :: str
  relevance :: "pyfloat option"

text \<open>
  \<^verbatim>\<open>round(1 - distance, 3) if distance else None\<close>: the test is Python truthiness, so
  both \<^verbatim>\<open>None\<close> and the float \<^verbatim>\<open>0.0\<close> take the \<^verbatim>\<open>else\<close> branch. The subtraction and
  the rounding are the float operations.
\<close>

definition relevance_of :: "pyfloat option \<Rightarrow> pyfloat option" where
  "relevance_of distance =
     (case distance of
        None \<Rightarrow> None
      | Some d \<Rightarrow>
          if float_truthy d then Some (py_round3 (float_sub (Finite 1) d)) else None)"

text \<open>
  \<^verbatim>\<open>results['distances'][0][i] if results.get('distances') else None\<close>: an empty outer list
  is falsy too; an index out of range raises.
\<close>

definition get_distance ::
  "pyfloat list list option \<Rightarrow> nat \<Rightarrow> py_error + pyfloat option" where
  "get_distance ds i =
     (case ds of
        None \<Rightarrow> Inr None
      | Some [] \<Rightarrow> Inr None
      | Some (row # _) \<Rightarrow> if i < length row then Inr (Some (row ! i)) else Inl IndexError)"

definition site_name_of :: "metadata \<Rightarrow> str" where
  "site_name_of meta = dict_get meta (ascii ''site'') (ascii ''Sans titre'')"

definition make_source :: "metadata \<Rightarrow> pyfloat option \<Rightarrow> retrieved_source" where
  "make_source meta distance =
     \<lparr> site = site_name_of meta,
       source = dict_get meta (ascii ''source'') (ascii ''inconnu''),
       ville = dict_get meta (ascii ''ville'') [],
       periode = dict_get meta (ascii ''period'') [],
       coordonnees = dict_get meta (ascii ''coordonnees'') [],
       relevance = relevance_of distance \<rparr>"

text \<open>
  The loop over \<^verbatim>\<open>enumerate(zip(documents, metadatas))\<close>, on the state
  \<open>(context_parts, sources, seen_sites)\<close>.
\<close>

fun retrieve_loop ::
  "pyfloat list list option \<Rightarrow> (nat \<times> str \<times> metadata) list \<Rightarrow>
   str list \<times> retrieved_source list \<times> str set \<Rightarrow>
   py_error + (str list \<times> retrieved_source list \<times> str set)" where
  "retrieve_loop ds [] st = Inr st"
| "retrieve_loop ds ((i, doc_text, meta) # rest) (context_parts, sources, seen_sites) =
     (let context_parts' = context_parts @ [strip doc_text];
          site_name = site_name_of meta
      in if site_name \<notin> seen_sites then
           (case get_distance ds i of
              Inl e \<Rightarrow> Inl e
            | Inr distance \<Rightarrow>
                retrieve_loop ds rest
                  (context_parts', sources @ [make_source meta distance],
                   insert site_name seen_sites))
         else retrieve_loop ds rest (context_parts', sources, seen_sites))"

definition enumerate_zip :: "'a list \<Rightarrow> 'b list \<Rightarrow> (nat \<times> 'a \<times> 'b) list" where
  "enumerate_zip xs ys = zip [0..<min (length xs) (length ys)] (zip xs ys)"

text \<open>
  The part of \<^verbatim>\<open>retrieve_documents\<close> after the store has answered. Indexing \<^verbatim>\<open>None\<close> raises
  \<^verbatim>\<open>TypeError\<close>, indexing an empty list \<^verbatim>\<open>IndexError\<close>.
\<close>

definition assemble_results :: "query_result \<Rightarrow> py_error + (str \<times> retrieved_source list)" where
  "assemble_results results =
     (case documents results of
        None \<Rightarrow> Inr ([], [])
      | Some [] \<Rightarrow> Inr ([], [])
      | Some (docs # _) \<Rightarrow>
          if docs = [] then Inr ([], [])
          else
            (case metadatas results of
               None \<Rightarrow> Inl TypeError
             | Some [] \<Rightarrow> Inl IndexError
             | Some (metas # _) \<Rightarrow>
                 (case retrieve_loop (distances results) (enumerate_zip docs metas) ([], [], {}) of
                    Inl e \<Rightarrow> Inl e
                  | Inr (context_parts, sources, _) \<Rightarrow>
                      Inr (join [10, 10] context_parts, sources))))"

section \<open>The chatbot, its collaborators and its state (rag.py)\<close>

record message =
  role :: str
  content :: str

type_synonym embedding = "rat list"

text \<open>
  What \<^verbatim>\<open>requests.post\<close> does: it returns a response (status code, body, and the
  milliseconds \<^verbatim>\<open>int((time.time() - start_time) * 1000)\<close> measured around it) or raises.
  \<^verbatim>\<open>Timeout\<close> stands for every instance of \<^verbatim>\<open>requests.exceptions.Timeout\<close>, \<^verbatim>\<open>ConnectionError\<close>
  for the connection errors that are not timeouts, \<^verbatim>\<open>OtherException\<close> for any other
  \<^verbatim>\<open>Exception\<close>, with its \<^verbatim>\<open>str(e)\<close>.
\<close>

datatype exn = Timeout | ConnectionError | OtherException str

text \<open>
  The body of a response as the code reads it: \<^verbatim>\<open>response.json()\<close>,
  \<^verbatim>\<open>result['message']['content']\<close> and \<^verbatim>\<open>result.get('eval_count', 0)\<close>. A body that does
  not parse or lacks the content raises inside the \<^verbatim>\<open>try\<close>.
\<close>

datatype chat_body = Unreadable str | ChatBody str "int option"

datatype http_outcome = Response int chat_body int | Raises exn

record services =
  encode :: "str \<Rightarrow> embedding"
  collection_query :: "embedding \<Rightarrow> int \<Rightarrow> query_result"
  post_chat :: "message list \<Rightarrow> http_outcome"

text \<open>
  The calls that leave the process, in order. The log is not a field of the Python
  object: it records the effects of the methods so that "no call is made" can be stated.
\<close>

datatype service_call = Embed str | Query embedding int | Generate "message list"

record chatbot =
  conversation_history :: "message list"
  call_log :: "service_call list"

definition init_chatbot :: chatbot where
  "init_chatbot = \<lparr> conversation_history = [], call_log = [] \<rparr>"

definition DEFAULT_TOP_K :: int where
  "DEFAULT_TOP_K = 5"

definition retrieve_documents ::
  "services \<Rightarrow> str \<Rightarrow> int \<Rightarrow> chatbot \<Rightarrow> (py_error + (str \<times> retrieved_source list)) \<times> chatbot" where
  "retrieve_documents env query top_k self =
     (let query_embedding = encode env query;
          results = collection_query env query_embedding top_k;
          self' = self\<lparr>call_log := call_log self @ [Embed query, Query query_embedding top_k]\<rparr>
      in (assemble_results results, self'))"

section \<open>Generation (rag.py)\<close>

definition SYSTEM_PROMPT :: str where
  "SYSTEM_PROMPT =
     ascii ''Tu es un assistant expert sp'' @ [233] @ ascii ''cialis'' @ [233] @
     ascii '' sur les sites arch'' @ [233] @ ascii ''ologiques de Tunisie.'' @
     [10, 10] @ ascii ''R'' @ [200] @ ascii ''GLES IMPORTANTES:'' @ [10] @
     ascii ''1. R'' @ [233] @
     ascii ''ponds UNIQUEMENT avec les informations du CONTEXTE fourni'' @ [10] @
     ascii ''2. Si l'' @ [39] @ ascii ''information n'' @ [39] @
     ascii ''est pas dans le contexte, dis clairement: '' @ [34] @ ascii ''Je n'' @
     [39] @ ascii ''ai pas cette information dans ma base de donn'' @ [233] @
     ascii ''es.'' @ [34, 10] @
     ascii ''3. Ne jamais inventer ou supposer des informations'' @ [10] @
     ascii ''4. R'' @ [233] @ ascii ''ponds en fran'' @ [231] @ ascii ''ais de mani'' @
     [232] @ ascii ''re claire et professionnelle'' @ [10] @
     ascii ''5. Structure tes r'' @ [233] @ ascii ''ponses avec des paragraphes si n'' @
     [233] @ ascii ''cessaire'' @ [10] @
     ascii ''6. Mentionne les sources (sites) quand tu donnes des informa'' @
     ascii ''tions'' @ [10] @ ascii ''7. Si on te demande des coordonn'' @ [233] @
     ascii ''es ou localisations, fournis-les si disponibles''"

definition user_prompt :: "str \<Rightarrow> str \<Rightarrow> str" where
  "user_prompt query context =
     ascii ''CONTEXTE (Base de donn'' @ [233] @ ascii ''es des sites arch'' @ [233] @
     ascii ''ologiques tunisiens):'' @ [10] @ context @
     [10, 10] @ ascii ''QUESTION: '' @ query @
     [10, 10] @ ascii ''R'' @ [233] @ ascii ''ponds de mani'' @ [232] @ ascii ''re pr'' @
     [233] @ ascii ''cise et informative en te basant uniquement sur le contexte '' @
     ascii ''ci-dessus.''"

definition build_messages :: "chatbot \<Rightarrow> str \<Rightarrow> str \<Rightarrow> message list" where
  "build_messages self query context =
     [\<lparr>role = ascii ''system'', content = SYSTEM_PROMPT\<rparr>] @
     map (\<lambda>msg. \<lparr>role = role msg, content = content msg\<rparr>)
       (lastn MAX_HISTORY_MESSAGES (conversation_history self)) @
     [\<lparr>role = ascii ''user'', content = user_prompt query context\<rparr>]"

text \<open>\<^verbatim>\<open>str(n)\<close> of an integer, in decimal.\<close>

fun digits :: "nat \<Rightarrow> str" where
  "digits n = (if n < 10 then [48 + n] else digits (n div 10) @ [48 + n mod 10])"

declare digits.simps [simp del]

definition str_of_int :: "int \<Rightarrow> str" where
  "str_of_int i = (if i < 0 then 45 # digits (nat (- i)) else digits (nat i))"

definition MSG_MODEL_NOT_FOUND :: str where
  "MSG_MODEL_NOT_FOUND =
     [10060] @ ascii '' Mod'' @ [232] @ ascii ''le '' @ [39] @ ascii ''llama3'' @ [39] @
     ascii '' non trouv'' @ [233] @ ascii ''. Ex'' @ [233] @
     ascii ''cutez: ollama pull llama3''"

definition MSG_API_ERROR :: "int \<Rightarrow> str" where
  "MSG_API_ERROR status_code =
     [10060] @ ascii '' Erreur API (code '' @ str_of_int status_code @ ascii '')''"

definition MSG_TIMEOUT :: str where
  "MSG_TIMEOUT =
     [9201, 65039] @ ascii '' D'' @ [233] @ ascii ''lai d'' @ [39] @ ascii ''attente d'' @
     [233] @ ascii ''pass'' @ [233] @ ascii ''. Le mod'' @ [232] @
     ascii ''le prend trop de temps.''"

definition MSG_CONNECTION :: str where
  "MSG_CONNECTION =
     [10060] @ ascii '' Impossible de se connecter '' @ [224] @ ascii '' Ollama. V'' @
     [233] @ ascii ''rifiez qu'' @ [39] @ ascii ''il est lanc'' @ [233] @
     ascii '' avec: ollama serve''"

definition MSG_EXCEPTION :: "str \<Rightarrow> str" where
  "MSG_EXCEPTION e = [10060] @ ascii '' Erreur: '' @ e"

text \<open>The body of the \<^verbatim>\<open>try\<close> block of \<^verbatim>\<open>generate_response\<close>: it returns or raises.\<close>

definition generate_try :: "services \<Rightarrow> message list \<Rightarrow> exn + (str \<times> int \<times> int)" where
  "generate_try env messages =
     (case post_chat env messages of
        Raises e \<Rightarrow> Inl e
      | Response status_code body response_time \<Rightarrow>
          if status_code = 200 then
            (case body of
               Unreadable e \<Rightarrow> Inl (OtherException e)
             | ChatBody answer eval_count \<Rightarrow>
                 Inr (answer, (case eval_count of None \<Rightarrow> 0 | Some n \<Rightarrow> n), response_time))
          else if status_code = 404 then Inr (MSG_MODEL_NOT_FOUND, 0, response_time)
          else Inr (MSG_API_ERROR status_code, 0, response_time))"

text \<open>
  \<^verbatim>\<open>generate_response\<close> with its three handlers, in the source's order. The result is a sum
  so that an exception escaping the handlers would be a value \<open>Inl\<close>.
\<close>

definition generate_response ::
  "services \<Rightarrow> message list \<Rightarrow> chatbot \<Rightarrow> (exn + (str \<times> int \<times> int)) \<times> chatbot" where
  "generate_response env messages self =
     (let self' = self\<lparr>call_log := call_log self @ [Generate messages]\<rparr>
      in (case generate_try env messages of
            Inr r \<Rightarrow> (Inr r, self')
          | Inl Timeout \<Rightarrow> (Inr (MSG_TIMEOUT, 0, 0), self')
          | Inl ConnectionError \<Rightarrow> (Inr (MSG_CONNECTION, 0, 0), self')
          | Inl (OtherException e) \<Rightarrow> (Inr (MSG_EXCEPTION e, 0, 0), self')))"

section \<open>The answering orchestrator (rag.py)\<close>

definition MSG_INVALID :: str where
  "MSG_INVALID = [10060] @ ascii '' Veuillez entrer une question valide.''"

definition MSG_NOT_FOUND :: str where
  "MSG_NOT_FOUND =
     [10060] @ ascii '' Aucun document trouv'' @ [233] @ ascii '' dans la base de donn'' @
     [233] @ ascii ''es. Ex'' @ [233] @ ascii ''cutez d'' @ [39] @
     ascii ''abord: python ingest.py''"

text \<open>What \<^verbatim>\<open>answer\<close> does: it returns its 4-tuple or an exception leaves it.\<close>

datatype raised = Error py_error | Exn exn

type_synonym answer_tuple = "str \<times> retrieved_source list \<times> int \<times> int"

definition truncate_history :: "message list \<Rightarrow> message list" where
  "truncate_history h =
     (if length h > MAX_HISTORY_MESSAGES * 2 then lastn (MAX_HISTORY_MESSAGES * 2) h else h)"

definition answer ::
  "services \<Rightarrow> py_value \<Rightarrow> int \<Rightarrow> chatbot \<Rightarrow> (raised + answer_tuple) \<times> chatbot" where
  "answer env query top_k self =
     (let query = sanitize_input query
      in if query = [] then (Inr (MSG_INVALID, [], 0, 0), self)
         else
           (case retrieve_documents env query top_k self of
              (Inl e, self1) \<Rightarrow> (Inl (Error e), self1)
            | (Inr (context, sources), self1) \<Rightarrow>
                if context = [] then (Inr (MSG_NOT_FOUND, [], 0, 0), self1)
                else
                  (let messages = build_messages self1 query context
                   in case generate_response env messages self1 of
                        (Inl e, self2) \<Rightarrow> (Inl (Exn e), self2)
                      | (Inr (answer, tokens, response_time), self2) \<Rightarrow>
                          (let h = conversation_history self2 @
                                 [\<lparr>role = ascii ''user'', content = query\<rparr>,
                                  \<lparr>role = ascii ''assistant'', content = answer\<rparr>]
                           in (Inr (answer, sources, tokens, response_time),
                               self2\<lparr>conversation_history := truncate_history h\<rparr>)))))"

text \<open>
  \<^verbatim>\<open>load_history_from_messages\<close>: the history is emptied, then the last
  \<open>MAX_HISTORY_MESSAGES\<close> messages are appended one by one; \<^verbatim>\<open>msg["role"]\<close> raises
  \<^verbatim>\<open>KeyError\<close> on a dict without the key, and the history keeps what was appended.
\<close>

fun load_loop :: "metadata list \<Rightarrow> message list \<Rightarrow> py_error option \<times> message list" where
  "load_loop [] h = (None, h)"
| "load_loop (msg # msgs) h =
     (case msg (ascii ''role'') of
        None \<Rightarrow> (Some KeyError, h)
      | Some r \<Rightarrow>
          (case msg (ascii ''content'') of
             None \<Rightarrow> (Some KeyError, h)
           | Some c \<Rightarrow> load_loop msgs (h @ [\<lparr>role = r, content = c\<rparr>])))"

definition load_history_from_messages :: "metadata list \<Rightarrow> chatbot \<Rightarrow> py_error option \<times> chatbot" where
  "load_history_from_messages messages self =
     (case load_loop (lastn MAX_HISTORY_MESSAGES messages) [] of
        (e, h) \<Rightarrow> (e, self\<lparr>conversation_history := h\<rparr>))"

definition clear_history :: "chatbot \<Rightarrow> chatbot" where
  "clear_history self = self\<lparr>conversation_history := []\<rparr>"

text \<open>
  The states a chatbot object can be in: created by the constructor, then changed only by
  its methods.
\<close>

inductive reachable :: "chatbot \<Rightarrow> bool" where
  reach_init: "reachable init_chatbot"
| reach_answer: "reachable self \<Longrightarrow> reachable (snd (answer env query top_k self))"
| reach_load: "reachable self \<Longrightarrow> reachable (snd (load_history_from_messages messages self))"
| reach_clear: "reachable self \<Longrightarrow> reachable (clear_history self)"

section \<open>Chunking and indexing (ingest.py)\<close>

definition CHUNK_WORD_TARGET :: int where
  "CHUNK_WORD_TARGET = 200"

definition CHUNK_OVERLAP_WORDS :: int where
  "CHUNK_OVERLAP_WORDS = 30"

definition MIN_CHUNK_WORDS :: nat where
  "MIN_CHUNK_WORDS = 15"

text \<open>
  The character class of \<^verbatim>\<open>_sentence_split_re\<close>: full stop, exclamation mark, question
  mark, the danda (U+0964) and the ideographic full stop (U+3002).
\<close>

definition is_sentence_end :: "codepoint \<Rightarrow> bool" where
  "is_sentence_end c \<longleftrightarrow> c = 46 \<or> c = 33 \<or> c = 63 \<or> c = 2404 \<or> c = 12290"

text \<open>
  \<^verbatim>\<open>_sentence_split_re.split(text)\<close> for the pattern \<^verbatim>\<open>(?<=[.!?...])\s+\<close>: the text is cut
  at every maximal run of whitespace that directly follows a sentence-end character, and
  the run is dropped. The arguments are the piece being read, whether the previous
  character ends a sentence, and the rest of the text.
\<close>

function sentence_split_from :: "str \<Rightarrow> bool \<Rightarrow> str \<Rightarrow> str list" where
  "sentence_split_from piece after_end [] = [piece]"
| "sentence_split_from piece after_end (c # cs) =
     (if after_end \<and> is_space c
      then piece # sentence_split_from [] False (dropWhile is_space cs)
      else sentence_split_from (piece @ [c]) (is_sentence_end c) cs)"
  by pat_completeness auto
termination
  by (relation "measure (\<lambda>(piece, after_end, rest). length rest)")
     (auto simp: length_dropWhile_le less_Suc_eq_le)

definition sentence_split :: "str \<Rightarrow> str list" where
  "sentence_split text = sentence_split_from [] False text"

text \<open>The state of the loop of \<^verbatim>\<open>text_to_chunks\<close>.\<close>

record chunker =
  chunks :: "str list"
  current_chunk :: "str list"
  current_word_count :: int

text \<open>
  One iteration of the loop over the sentences:
  \<^verbatim>\<open>
  sentence = sentence.strip()
  if not sentence: continue
  words = sentence.split(); word_count = len(words)
  if current_word_count + word_count <= target_words or not current_chunk:
      current_chunk.append(sentence); current_word_count += word_count
  else:
      chunk_text = " ".join(current_chunk).strip()
      if chunk_text: chunks.append(chunk_text)
      if overlap > 0:
          all_words = " ".join(current_chunk).split()
          overlap_words = all_words[-overlap:] if len(all_words) >= overlap else all_words
          current_chunk = [" ".join(overlap_words)]
          current_word_count = len(overlap_words)
      else:
          current_chunk = []; current_word_count = 0
      current_chunk.append(sentence); current_word_count += word_count
  \<close>
\<close>

definition chunk_step :: "int \<Rightarrow> int \<Rightarrow> chunker \<Rightarrow> str \<Rightarrow> chunker" where
  "chunk_step target_words overlap st sentence0 =
     (let sentence = strip sentence0
      in if sentence = [] then st
         else
           (let words = split_ws sentence;
                word_count = int (length words)
            in if current_word_count st + word_count \<le> target_words \<or> current_chunk st = []
               then st\<lparr>current_chunk := current_chunk st @ [sentence],
                       current_word_count := current_word_count st + word_count\<rparr>
               else
                 (let chunk_text = strip (join [32] (current_chunk st));
                      chunks' = (if chunk_text \<noteq> [] then chunks st @ [chunk_text] else chunks st)
                  in if 0 < overlap then
                       (let all_words = split_ws (join [32] (current_chunk st));
                            overlap_words =
                              (if overlap \<le> int (length all_words)
                               then lastn (nat overlap) all_words else all_words)
                        in \<lparr>chunks = chunks',
                            current_chunk = [join [32] overlap_words] @ [sentence],
                            current_word_count = int (length overlap_words) + word_count\<rparr>)
                     else
                       \<lparr>chunks = chunks',
                        current_chunk = [sentence],
                        current_word_count = word_count\<rparr>)))"

definition close_last :: "chunker \<Rightarrow> str list" where
  "close_last st =
     (if current_chunk st \<noteq> [] then
        (let chunk_text = strip (join [32] (current_chunk st))
         in if chunk_text \<noteq> [] then chunks st @ [chunk_text] else chunks st)
      else chunks st)"

text \<open>The chunks built by the loop and the closing step, before the filter.\<close>

definition built_chunks :: "str \<Rightarrow> int \<Rightarrow> int \<Rightarrow> str list" where
  "built_chunks text target_words overlap =
     close_last
       (foldl (chunk_step target_words overlap)
          \<lparr>chunks = [], current_chunk = [], current_word_count = 0\<rparr>
          (sentence_split text))"

definition text_to_chunks :: "str \<Rightarrow> int \<Rightarrow> int \<Rightarrow> str list" where
  "text_to_chunks text target_words overlap =
     filter (\<lambda>c. MIN_CHUNK_WORDS \<le> length (split_ws c))
       (built_chunks text target_words overlap)"

text \<open>
  A corpus record as \<^verbatim>\<open>create_rich_text\<close> reads it: every field is read with
  \<^verbatim>\<open>doc.get(key, '')\<close> and tested for truthiness, so a missing field and an empty one
  are the same; \<^verbatim>\<open>monuments\<close> is a list.
\<close>

record site_document =
  doc_site :: str
  doc_ville :: str
  doc_description :: str
  doc_periode :: str
  doc_statut :: str
  doc_coordonnees :: str
  doc_details :: str
  doc_monuments :: "str list"
  doc_horaires :: str
  doc_tarif :: str

definition create_rich_text :: "site_document \<Rightarrow> str" where
  "create_rich_text doc =
     join [32]
       ((if doc_site doc \<noteq> [] then
           [ascii ''Site arch'' @ [233] @ ascii ''ologique: '' @ doc_site doc @ ascii ''.'']
         else []) @
        (if doc_ville doc \<noteq> [] then
           [ascii ''Situ'' @ [233] @ ascii '' '' @ [224] @ ascii '' '' @ doc_ville doc @
            ascii '', Tunisie.'']
         else []) @
        (if doc_description doc \<noteq> [] then [doc_description doc] else []) @
        (if doc_periode doc \<noteq> [] then
           [ascii ''P'' @ [233] @ ascii ''riode historique: '' @ doc_periode doc @ ascii ''.'']
         else []) @
        (if doc_statut doc \<noteq> [] then
           (if doc_statut doc = ascii ''UNESCO'' then
              [ascii ''Ce site est inscrit au patrimoine mondial de l'' @ [39] @
               ascii ''UNESCO.'']
            else [ascii ''Statut: '' @ doc_statut doc @ ascii ''.''])
         else []) @
        (if doc_coordonnees doc \<noteq> [] then
           [ascii ''Coordonn'' @ [233] @ ascii ''es GPS: '' @ doc_coordonnees doc @ ascii ''.'']
         else []) @
        (if doc_details doc \<noteq> [] then [doc_details doc] else []) @
        (if doc_monuments doc \<noteq> [] then
           [ascii ''Principaux monuments: '' @ join (ascii '', '') (doc_monuments doc) @
            ascii ''.'']
         else []) @
        (if doc_horaires doc \<noteq> [] then [ascii ''Horaires: '' @ doc_horaires doc @ ascii ''.'']
         else []) @
        (if doc_tarif doc \<noteq> [] then [ascii ''Tarif: '' @ doc_tarif doc @ ascii ''.''] else []))"

text \<open>
  The chunks \<^verbatim>\<open>main\<close> stages for one document, in order:
  \<^verbatim>\<open>
  full_text = create_rich_text(doc)
  if not full_text.strip(): continue
  chunks = text_to_chunks(full_text)
  if not chunks: chunks = [full_text]
  \<close>
\<close>

definition staged_chunks :: "str \<Rightarrow> str list" where
  "staged_chunks full_text =
     (if strip full_text = [] then []
      else
        (let chunks = text_to_chunks full_text CHUNK_WORD_TARGET CHUNK_OVERLAP_WORDS
         in if chunks = [] then [full_text] else chunks))"

definition persisted_chunks :: "site_document \<Rightarrow> str list" where
  "persisted_chunks doc = staged_chunks (create_rich_text doc)"

section \<open>Vocabulary of the retrieval properties\<close>

text \<open>
  The spec's words for the sources list: results are scanned in the store's order and only
  the first chunk seen per distinct site is kept. \<open>first_of_site metas i\<close> says that no
  earlier result has the site of result \<open>i\<close>; \<open>first_occurrences metas n\<close> lists such
  results among the first \<open>n\<close>, in the store's order.
\<close>

definition first_of_site :: "metadata list \<Rightarrow> nat \<Rightarrow> bool" where
  "first_of_site metas i \<longleftrightarrow>
     list_all (\<lambda>j. site_name_of (metas ! j) \<noteq> site_name_of (metas ! i)) [0..<i]"

definition first_occurrences :: "metadata list \<Rightarrow> nat \<Rightarrow> nat list" where
  "first_occurrences metas n = filter (first_of_site metas) [0..<n]"

text \<open>
  The same for the loop, which runs on the enumerated triples with a set of sites already
  seen: the positions whose source is appended, and the source built at a position.
\<close>

definition site_at :: "(nat \<times> str \<times> metadata) list \<Rightarrow> nat \<Rightarrow> str" where
  "site_at ts p = site_name_of (snd (snd (ts ! p)))"

definition picks :: "str set \<Rightarrow> (nat \<times> str \<times> metadata) list \<Rightarrow> nat list" where
  "picks seen ts =
     filter (\<lambda>p. site_at ts p \<notin> seen \<and> list_all (\<lambda>p'. site_at ts p' \<noteq> site_at ts p) [0..<p])
       [0..<length ts]"

definition source_at ::
  "pyfloat list list option \<Rightarrow> (nat \<times> str \<times> metadata) list \<Rightarrow> nat \<Rightarrow> retrieved_source" where
  "source_at ds ts p = make_source (snd (snd (ts ! p))) (projr (get_distance ds (fst (ts ! p))))"

text \<open>
  The spec's words for the chunker: a word is a maximal run of non-whitespace characters;
  chunk \<open>b\<close> starts with the last \<open>n\<close> words of chunk \<open>a\<close> (all of its words when it has
  fewer than \<open>n\<close>, as the slice \<^verbatim>\<open>all_words[-n:]\<close> gives).
\<close>

definition clean_word :: "str \<Rightarrow> bool" where
  "clean_word w \<longleftrightarrow> w \<noteq> [] \<and> (\<forall>c \<in> set w. \<not> is_space c)"

definition overlaps :: "nat \<Rightarrow> str \<Rightarrow> str \<Rightarrow> bool" where
  "overlaps n a b \<longleftrightarrow> prefix (lastn n (split_ws a)) (split_ws b)"

text \<open>
  Chunk \<open>b\<close> starts with the last \<open>n\<close> words of chunk \<open>a\<close> and has at least one word more,
  as a chunk seeded with the overlap and then given a sentence has. The invariant of the
  chunker loop: the closed chunks are seeded one from the other, and the chunk being
  filled is seeded from the last closed one.
\<close>

definition seeded :: "nat \<Rightarrow> str \<Rightarrow> str \<Rightarrow> bool" where
  "seeded n a b \<longleftrightarrow> strict_prefix (lastn n (split_ws a)) (split_ws b)"

definition chunker_inv :: "nat \<Rightarrow> chunker \<Rightarrow> bool" where
  "chunker_inv n st \<longleftrightarrow>
     successively (seeded n) (chunks st) \<and>
     (chunks st \<noteq> [] \<longrightarrow>
        strict_prefix (lastn n (split_ws (last (chunks st))))
          (split_ws (join [32] (current_chunk st)))) \<and>
     (current_chunk st \<noteq> [] \<longrightarrow> split_ws (join [32] (current_chunk st)) \<noteq> [])"

text \<open>The number that a string of decimal digits denotes.\<close>

definition decimal_value :: "str \<Rightarrow> nat" where
  "decimal_value s = foldl (\<lambda>acc c. 10 * acc + (c - 48)) 0 s"

section \<open>Example inputs\<close>

text \<open>
  Store answers used to run the definitions: three hits of which the first and the third
  belong to one site, a single hit at distance 2 (a squared Euclidean distance between
  unit vectors ranges over \<open>[0, 4]\<close>), and a single hit at the double just below
  \<open>0.4375\<close>, for which \<open>1 - distance\<close> is not a double.
\<close>

definition three_hits :: query_result where
  "three_hits =
     \<lparr> documents = Some [[ascii ''Carthage. '', ascii ''Dougga.'', ascii ''Thermes.'']],
       metadatas = Some [[[ascii ''site'' \<mapsto> ascii ''Carthage''],
                          [ascii ''site'' \<mapsto> ascii ''Dougga''],
                          [ascii ''site'' \<mapsto> ascii ''Carthage'']]],
       distances = Some [[Finite (1 / 4), Finite (1 / 2), Finite (3 / 4)]] \<rparr>"

definition far_hit :: query_result where
  "far_hit =
     \<lparr> documents = Some [[ascii ''Dougga.'']],
       metadatas = Some [[[ascii ''site'' \<mapsto> ascii ''Dougga'']]],
       distances = Some [[Finite 2]] \<rparr>"

definition tie_hit :: query_result where
  "tie_hit =
     \<lparr> documents = Some [[ascii ''Dougga.'']],
       metadatas = Some [[[ascii ''site'' \<mapsto> ascii ''Dougga'']]],
       distances = Some [[Finite (7881299347898367 / 18014398509481984)]] \<rparr>"

definition no_hits :: query_result where
  "no_hits = \<lparr> documents = Some [[]], metadatas = Some [[]], distances = Some [[]] \<rparr>"

definition example_services :: "query_result \<Rightarrow> services" where
  "example_services results =
     \<lparr> encode = (\<lambda>_. []),
       collection_query = (\<lambda>_ _. results),
       post_chat = (\<lambda>_. Response 200 (ChatBody (ascii ''ok'') (Some 3)) 40) \<rparr>"

text \<open>
  Texts and corpus records used to run the chunker: three sentences of 16, 5 and 16
  words, two sentences of 16 words, a record with no field, and a record with only a
  site name.
\<close>

definition gap_text :: str where
  "gap_text = ascii ''a b c d e f g h i j k l m n o p. q r s t u. A B C D E F G H I J K L M N O P.''"

definition tight_text :: str where
  "tight_text = ascii ''a b c d e f g h i j k l m n o p. q. A B C D E F G H I J K L M N O P.''"

definition empty_document :: site_document where
  "empty_document =
     \<lparr> doc_site = [], doc_ville = [], doc_description = [], doc_periode = [], doc_statut = [],
       doc_coordonnees = [], doc_details = [], doc_monuments = [], doc_horaires = [],
       doc_tarif = [] \<rparr>"

definition carthage_document :: site_document where
  "carthage_document = empty_document\<lparr>doc_site := ascii ''Carthage''\<rparr>"

section \<open>Properties of the float operations\<close>

lemma bits_bounds: "0 < n \<Longrightarrow> 2 ^ (bits n - 1) \<le> n \<and> n < 2 ^ bits n"
proof (induction n rule: bits.induct)
  case (1 n)
  show ?case
  proof (cases "n div 2 = 0")
    case True
    with "1.prems" have "n = 1" by (simp add: div_eq_0_iff) 
    then show ?thesis by (simp add: bits.simps)
  next
    case False
    then have pos: "0 < n div 2" by simp
    from "1.prems" have n0: "n \<noteq> 0" by simp
    from "1.IH" [OF n0 pos] have ih: "2 ^ (bits (n div 2) - 1) \<le> n div 2" "n div 2 < 2 ^ bits (n div 2)"
      by simp_all
    have b: "bits n = Suc (bits (n div 2))" using n0 by (simp add: bits.simps [of n])
    have bp: "0 < bits (n div 2)" using pos by (simp add: bits.simps [of "n div 2"])
    then have e: "2 ^ bits (n div 2) = 2 * (2::nat) ^ (bits (n div 2) - 1)"
      by (cases "bits (n div 2)") simp_all
    from ih show ?thesis
      unfolding b using e by (simp) linarith
  qed
qed

lemma ilog2_bounds:
  assumes "0 < x"
  shows "2 powi (ilog2 x) \<le> x \<and> x < 2 powi (ilog2 x + 1)"
proof -
  obtain p q where pq: "quotient_of x = (p, q)" by (cases "quotient_of x")
  then have q: "0 < q" and x: "x = of_int p / of_int q"
    by (simp_all add: quotient_of_denom_pos quotient_of_div)
  from assms x q have p: "0 < p"
    by (simp add: zero_less_divide_iff)
  define bp where "bp = bits (nat p)"
  define bq where "bq = bits (nat q)"
  define e where "e = int bp - int bq"
  from bits_bounds [of "nat p"] p have P: "2 ^ (bp - 1) \<le> nat p" "nat p < 2 ^ bp"
    by (simp_all add: bp_def)
  from bits_bounds [of "nat q"] q have Q: "2 ^ (bq - 1) \<le> nat q" "nat q < 2 ^ bq"
    by (simp_all add: bq_def)
  have bp1: "1 \<le> bp" using p by (simp add: bp_def bits.simps [of "nat p"])
  have bq1: "1 \<le> bq" using q by (simp add: bq_def bits.simps [of "nat q"])
  have pn: "(of_int p :: rat) = of_nat (nat p)" using p by simp
  have qn: "(of_int q :: rat) = of_nat (nat q)" using q by simp
  have "(of_nat (2 ^ (bp - 1)) :: rat) \<le> of_nat (nat p)" "(of_nat (nat p) :: rat) < of_nat (2 ^ bp)"
    using P by (simp_all only: of_nat_le_iff of_nat_less_iff)
  then have rp: "(2::rat) ^ (bp - 1) \<le> of_int p" "(of_int p :: rat) < 2 ^ bp"
    by (simp_all add: pn)
  have "(of_nat (2 ^ (bq - 1)) :: rat) \<le> of_nat (nat q)" "(of_nat (nat q) :: rat) < of_nat (2 ^ bq)"
    using Q by (simp_all only: of_nat_le_iff of_nat_less_iff)
  then have rq: "(2::rat) ^ (bq - 1) \<le> of_int q" "(of_int q :: rat) < 2 ^ bq"
    by (simp_all add: qn)
  have qpos: "(0::rat) < of_int q" using q by simp
  have up: "x < 2 powi (e + 1)"
  proof -
    have "x * 2 ^ (bq - 1) \<le> x * of_int q"
      using rq(1) assms by (simp add: mult_left_mono)
    also have "\<dots> = of_int p" using x qpos by simp
    also have "\<dots> < 2 ^ bp" by (rule rp(2))
    finally have "x < 2 ^ bp / 2 ^ (bq - 1)"
      by (simp add: pos_less_divide_eq)
    also have "\<dots> = 2 powi (int bp - int (bq - 1))"
      by (simp add: power_int_diff)
    also have "int bp - int (bq - 1) = e + 1"
      using bq1 by (simp add: e_def)
    finally show ?thesis .
  qed
  have lo: "2 powi (e - 1) \<le> x"
  proof -
    have "(2::rat) ^ (bp - 1) \<le> of_int p" by (rule rp(1))
    also have "\<dots> = x * of_int q" using x qpos by simp
    also have "\<dots> \<le> x * 2 ^ bq"
      using rq(2) assms by (simp add: mult_left_mono less_imp_le)
    finally have "2 ^ (bp - 1) / 2 ^ bq \<le> x"
      by (simp add: pos_divide_le_eq)
    moreover have "(2::rat) ^ (bp - 1) / 2 ^ bq = 2 powi (int (bp - 1) - int bq)"
      by (simp add: power_int_diff)
    moreover have "int (bp - 1) - int bq = e - 1"
      using bp1 by (simp add: e_def)
    ultimately show ?thesis by simp
  qed
  have il: "ilog2 x = (if 2 powi e \<le> x then e else e - 1)"
    by (simp add: ilog2_def pq e_def bp_def bq_def Let_def)
  show ?thesis
  proof (cases "2 powi e \<le> x")
    case True
    with il up show ?thesis by simp
  next
    case False
    with il lo show ?thesis by simp
  qed
qed

lemma powi_two_mono: "a \<le> b \<Longrightarrow> (2::rat) powi a \<le> 2 powi b"
  by (rule power_int_increasing) simp_all

lemma powi_two_less_imp: "(2::rat) powi a < 2 powi b \<Longrightarrow> a < b"
  using powi_two_mono [of b a] by (cases "a < b") auto

lemma powi_two_le_imp: "(2::rat) powi a \<le> 2 powi b \<Longrightarrow> a \<le> b"
proof (rule ccontr)
  assume le: "(2::rat) powi a \<le> 2 powi b" and "\<not> a \<le> b"
  then have "b < a" by simp
  then have "(2::rat) powi b < 2 powi a"
    by (rule power_int_strict_increasing) simp
  with le show False by simp
qed

lemma ilog2_eqI:
  assumes "2 powi e \<le> x" "x < 2 powi (e + 1)"
  shows "ilog2 x = e"
proof -
  have "(0::rat) < 2 powi e" by (simp add: zero_less_power_int)
  with assms(1) have pos: "0 < x" by linarith
  from ilog2_bounds [OF pos] have b: "2 powi (ilog2 x) \<le> x" "x < 2 powi (ilog2 x + 1)"
    by simp_all
  from b(1) assms(2) have "(2::rat) powi (ilog2 x) < 2 powi (e + 1)" by simp
  then have "ilog2 x < e + 1" by (rule powi_two_less_imp)
  moreover from assms(1) b(2) have "(2::rat) powi e < 2 powi (ilog2 x + 1)" by simp
  then have "e < ilog2 x + 1" by (rule powi_two_less_imp)
  ultimately show ?thesis by simp
qed


lemma round_half_even_cases:
  "round_half_even y = \<lfloor>y\<rfloor> \<and> y - of_int \<lfloor>y\<rfloor> \<le> 1 / 2 \<or>
   round_half_even y = \<lfloor>y\<rfloor> + 1 \<and> 1 / 2 \<le> y - of_int \<lfloor>y\<rfloor>"
  by (auto simp: round_half_even_def Let_def)

lemma round_half_even_close: "\<bar>of_int (round_half_even y) - y\<bar> \<le> 1 / 2"
proof -
  have "of_int \<lfloor>y\<rfloor> \<le> y" "y < of_int \<lfloor>y\<rfloor> + 1"
    by linarith+
  with round_half_even_cases [of y] show ?thesis
    by (auto simp: abs_le_iff)
qed

lemma round_half_even_tie:
  assumes "\<bar>of_int (round_half_even y) - y\<bar> = 1 / 2"
  shows "even (round_half_even y)"
proof -
  define r where "r = y - of_int \<lfloor>y\<rfloor>"
  have "of_int \<lfloor>y\<rfloor> \<le> y" "y < of_int \<lfloor>y\<rfloor> + 1"
    by linarith+
  then have r: "0 \<le> r" "r < 1" by (simp_all add: r_def)
  have y: "y = of_int \<lfloor>y\<rfloor> + r" by (simp add: r_def)
  show ?thesis
  proof (cases "r < 1 / 2")
    case True
    then have e: "round_half_even y = \<lfloor>y\<rfloor>"
      by (simp add: round_half_even_def Let_def r_def)
    have "\<bar>of_int (round_half_even y) - y\<bar> = r"
      unfolding e using r by (simp add: r_def)
    with assms True show ?thesis by simp
  next
    case False
    show ?thesis
    proof (cases "1 / 2 < r")
      case True
      then have e: "round_half_even y = \<lfloor>y\<rfloor> + 1"
        using False by (simp add: round_half_even_def Let_def r_def)
      have "\<bar>of_int (round_half_even y) - y\<bar> = 1 - r"
        unfolding e using r by (simp add: r_def)
      with assms True show ?thesis by simp
    next
      case F2: False
      with False show ?thesis
        by (auto simp: round_half_even_def Let_def r_def)
    qed
  qed
qed

lemma round_half_even_range:
  assumes "0 \<le> y" "y \<le> of_int m"
  shows "0 \<le> round_half_even y \<and> round_half_even y \<le> m"
proof -
  have f0: "0 \<le> \<lfloor>y\<rfloor>" using assms(1) by simp
  have fm: "\<lfloor>y\<rfloor> \<le> m" using assms(2) by (simp add: floor_le_iff)
  show ?thesis
  proof (cases "\<lfloor>y\<rfloor> = m")
    case True
    with assms(2) have "y - of_int \<lfloor>y\<rfloor> \<le> 0" by simp
    with round_half_even_cases [of y] True f0 show ?thesis by auto
  next
    case False
    with fm have "\<lfloor>y\<rfloor> + 1 \<le> m" by simp
    with round_half_even_cases [of y] f0 fm show ?thesis by auto
  qed
qed

lemma ulp_pos: "0 < ulp x"
  by (simp add: ulp_def zero_less_power_int)

text \<open>A finite result is a multiple of the spacing, at most half a spacing away.\<close>

lemma round_double_finite:
  assumes "round_double x = Finite y"
  shows "\<bar>y - x\<bar> \<le> ulp x / 2 \<and> (\<exists>m::int. y = of_int m * ulp x)"
proof (cases "x = 0")
  case True
  with assms show ?thesis using ulp_pos [of x] by (auto simp: round_double_def intro: exI [of _ 0])
next
  case False
  with assms have y: "y = of_int (round_half_even (x / ulp x)) * ulp x"
    by (auto simp: round_double_def Let_def split: if_splits)
  have "\<bar>of_int (round_half_even (x / ulp x)) - x / ulp x\<bar> \<le> 1 / 2"
    by (rule round_half_even_close)
  then have "\<bar>of_int (round_half_even (x / ulp x)) - x / ulp x\<bar> * ulp x \<le> 1 / 2 * ulp x"
    using ulp_pos [of x] by (simp add: mult_right_mono)
  moreover have "\<bar>of_int (round_half_even (x / ulp x)) - x / ulp x\<bar> * ulp x = \<bar>y - x\<bar>"
    using ulp_pos [of x] by (simp add: y abs_mult [symmetric] left_diff_distrib abs_mult_pos)
  ultimately show ?thesis
    using y by auto
qed

lemma ulp_le:
  assumes "x \<noteq> 0" "\<bar>x\<bar> < 2 powi (e + 1)" "- 1022 \<le> e"
  shows "ulp x \<le> 2 powi (e - 52)"
proof -
  from assms(1) have pos: "0 < \<bar>x\<bar>" by simp
  from ilog2_bounds [OF pos] assms(2) have "(2::rat) powi (ilog2 \<bar>x\<bar>) < 2 powi (e + 1)"
    by simp
  then have "ilog2 \<bar>x\<bar> < e + 1" by (rule powi_two_less_imp)
  with assms(3) have "max (ilog2 \<bar>x\<bar>) (- 1022) - 52 \<le> e - 52" by simp
  then show ?thesis
    unfolding ulp_def by (rule powi_two_mono)
qed

text \<open>Results in the unit interval stay there.\<close>

lemma round_double_unit:
  assumes "0 \<le> x" "x \<le> 1"
  shows "\<exists>y. round_double x = Finite y \<and> 0 \<le> y \<and> y \<le> 1 \<and> \<bar>y - x\<bar> \<le> 1 / 2 ^ 53"
proof (cases "x = 0")
  case True
  then show ?thesis by (simp add: round_double_def)
next
  case False
  have u: "ulp x \<le> 2 powi (0 - 52)"
    using False assms by (intro ulp_le) simp_all
  then have u52: "ulp x \<le> 1 / 2 ^ 52"
    by (simp add: power_int_minus field_simps)
  define k where "k = nat (- (max (ilog2 \<bar>x\<bar>) (- 1022) - 52))"
  have kk: "max (ilog2 \<bar>x\<bar>) (- 1022) - 52 = - int k"
  proof -
    have "(2::rat) powi (max (ilog2 \<bar>x\<bar>) (- 1022) - 52) \<le> 2 powi (- 52)"
      using u by (simp add: ulp_def)
    then have "max (ilog2 \<bar>x\<bar>) (- 1022) - 52 \<le> - 52"
      by (rule powi_two_le_imp)
    then show ?thesis by (simp add: k_def)
  qed
  have ul: "ulp x = 1 / 2 ^ k"
    by (simp add: ulp_def kk power_int_minus field_simps)
  define y where "y = of_int (round_half_even (x / ulp x)) * ulp x"
  have "0 \<le> x / ulp x" "x / ulp x \<le> of_int (2 ^ k)"
    using assms by (simp_all add: ul)
  from round_half_even_range [OF this]
  have "0 \<le> round_half_even (x / ulp x)" "round_half_even (x / ulp x) \<le> 2 ^ k"
    by simp_all
  then have "(0::rat) \<le> of_int (round_half_even (x / ulp x))"
    "(of_int (round_half_even (x / ulp x)) :: rat) \<le> of_int (2 ^ k)"
    by (simp_all only: of_int_le_iff of_int_0_le_iff)
  then have y01: "0 \<le> y" "y \<le> 1"
    by (simp_all add: y_def ul field_simps)
  then have "\<bar>y\<bar> < 2 ^ 1024"
    by (simp add: abs_if)
  then have rd: "round_double x = Finite y"
    using False by (simp add: round_double_def Let_def y_def)
  from round_double_finite [OF rd] u52 have "\<bar>y - x\<bar> \<le> 1 / 2 ^ 53"
    by simp
  with rd y01 show ?thesis by simp
qed


lemma round_half_even_between:
  assumes "of_int a \<le> y" "y \<le> of_int b"
  shows "a \<le> round_half_even y \<and> round_half_even y \<le> b"
proof -
  have fa: "a \<le> \<lfloor>y\<rfloor>" using assms(1) by (simp add: le_floor_iff)
  have fb: "\<lfloor>y\<rfloor> \<le> b" using assms(2) by (simp add: floor_le_iff)
  show ?thesis
  proof (cases "\<lfloor>y\<rfloor> = b")
    case True
    with assms(2) have "y - of_int \<lfloor>y\<rfloor> \<le> 0" by simp
    with round_half_even_cases [of y] True fa show ?thesis by auto
  next
    case False
    with fb have "\<lfloor>y\<rfloor> + 1 \<le> b" by simp
    with round_half_even_cases [of y] fa fb show ?thesis by auto
  qed
qed

text \<open>Near zero the spacing is a negative power of two, so small integers are doubles.\<close>

lemma ulp_inverse_power:
  assumes "x \<noteq> 0" "\<bar>x\<bar> < 2 ^ 53"
  shows "\<exists>k. ulp x = 1 / 2 ^ k"
proof -
  have "\<bar>x\<bar> < 2 powi (52 + 1)" using assms(2) by simp
  with assms(1) have "ulp x \<le> 2 powi (52 - 52)" by (intro ulp_le) simp_all
  then have "(2::rat) powi (max (ilog2 \<bar>x\<bar>) (- 1022) - 52) \<le> 2 powi 0"
    by (simp add: ulp_def)
  then have le: "max (ilog2 \<bar>x\<bar>) (- 1022) - 52 \<le> 0"
    by (rule powi_two_le_imp)
  define k where "k = nat (- (max (ilog2 \<bar>x\<bar>) (- 1022) - 52))"
  from le have kk: "max (ilog2 \<bar>x\<bar>) (- 1022) - 52 = - int k" by (simp add: k_def)
  have "ulp x = 1 / 2 ^ k"
    by (simp add: ulp_def kk power_int_minus field_simps)
  then show ?thesis ..
qed

lemma round_double_between:
  assumes "of_int a \<le> x" "x \<le> of_int b" "- (2 ^ 53) < a" "b < 2 ^ 53"
  shows "\<exists>y. round_double x = Finite y \<and> of_int a \<le> y \<and> y \<le> of_int b \<and>
     \<bar>y - x\<bar> \<le> ulp x / 2"
proof (cases "x = 0")
  case True
  with assms(1,2) show ?thesis using ulp_pos [of 0] by (simp add: round_double_def)
next
  case False
  have ra: "- (2 ^ 53) < (of_int a :: rat)" using assms(3)
    by (metis of_int_less_iff of_int_minus of_int_numeral of_int_power)
  have rb: "(of_int b :: rat) < 2 ^ 53" using assms(4)
    by (metis of_int_less_iff of_int_numeral of_int_power)
  from ra rb assms(1,2) have small: "\<bar>x\<bar> < 2 ^ 53" by (simp add: abs_less_iff)
  from ulp_inverse_power [OF False small] obtain k where ul: "ulp x = 1 / 2 ^ k" ..
  define y where "y = of_int (round_half_even (x / ulp x)) * ulp x"
  have "of_int (a * 2 ^ k) \<le> x / ulp x" "x / ulp x \<le> of_int (b * 2 ^ k)"
    using assms(1,2) by (simp_all add: ul)
  from round_half_even_between [OF this]
  have "a * 2 ^ k \<le> round_half_even (x / ulp x)" "round_half_even (x / ulp x) \<le> b * 2 ^ k"
    by simp_all
  then have "(of_int (a * 2 ^ k) :: rat) \<le> of_int (round_half_even (x / ulp x))"
    "(of_int (round_half_even (x / ulp x)) :: rat) \<le> of_int (b * 2 ^ k)"
    by (simp_all only: of_int_le_iff)
  then have yab: "of_int a \<le> y" "y \<le> of_int b"
    by (simp_all add: y_def ul field_simps)
  with ra rb have "\<bar>y\<bar> < 2 ^ 53" by (simp add: abs_less_iff)
  moreover have "(2::rat) ^ 53 < 2 ^ 1024" by simp
  ultimately have "\<not> 2 ^ 1024 \<le> \<bar>y\<bar>" by linarith
  then have rd: "round_double x = Finite y"
    using False by (simp add: round_double_def Let_def y_def)
  from round_double_finite [OF rd] rd yab show ?thesis by simp
qed

lemma round_double_small:
  assumes "\<bar>x\<bar> \<le> 4"
  shows "\<exists>y. round_double x = Finite y \<and> \<bar>y\<bar> \<le> 4 \<and> \<bar>y - x\<bar> \<le> 1 / 2 ^ 51"
proof -
  from assms have b: "of_int (- 4) \<le> x" "x \<le> of_int 4" by (simp_all add: abs_le_iff)
  from round_double_between [OF b] obtain y where
    y: "round_double x = Finite y" "of_int (- 4) \<le> y" "y \<le> of_int 4" "\<bar>y - x\<bar> \<le> ulp x / 2"
    by auto
  have "\<bar>y - x\<bar> \<le> 1 / 2 ^ 51"
  proof (cases "x = 0")
    case True
    with y(1) show ?thesis by (simp add: round_double_def)
  next
    case False
    have "\<bar>x\<bar> < 2 powi (2 + 1)" using assms by simp
    with False have "ulp x \<le> 2 powi (2 - 52)" by (intro ulp_le) simp_all
    then have "ulp x \<le> 1 / 2 ^ 50" by (simp add: power_int_minus field_simps)
    with y(4) show ?thesis by simp
  qed
  with y show ?thesis by (simp add: abs_le_iff)
qed

text \<open>What \<open>round(y, 3)\<close> is, for a small double \<open>y\<close>.\<close>

lemma py_round3_small:
  assumes "\<bar>y\<bar> \<le> 4"
  shows "\<exists>k v. py_round3 (Finite y) = Finite v \<and>
     round_double (of_int k / 1000) = Finite v \<and>
     \<bar>of_int k - y * 1000\<bar> \<le> 1 / 2 \<and>
     (\<bar>of_int k - y * 1000\<bar> = 1 / 2 \<longrightarrow> even k) \<and>
     \<bar>v - of_int k / 1000\<bar> \<le> 1 / 2 ^ 51 \<and> \<bar>v\<bar> \<le> 4"
proof -
  define k where "k = round_half_even (y * 1000)"
  from assms have "of_int (- 4000) \<le> y * 1000" "y * 1000 \<le> of_int 4000"
    by (simp_all add: abs_le_iff)
  from round_half_even_between [OF this] have "- 4000 \<le> k" "k \<le> 4000"
    by (simp_all add: k_def)
  then have "(of_int (- 4000) :: rat) \<le> of_int k" "(of_int k :: rat) \<le> of_int 4000"
    by (simp_all only: of_int_le_iff)
  then have "\<bar>of_int k / 1000 :: rat\<bar> \<le> 4"
    by (simp add: abs_le_iff)
  from round_double_small [OF this] obtain v where
    "round_double (of_int k / 1000) = Finite v" "\<bar>v\<bar> \<le> 4" "\<bar>v - of_int k / 1000\<bar> \<le> 1 / 2 ^ 51"
    by auto
  with round_half_even_close [of "y * 1000"] round_half_even_tie [of "y * 1000"]
  show ?thesis
    by (auto simp: k_def)
qed

lemma py_round3_unit:
  assumes "0 \<le> y" "y \<le> 1"
  shows "\<exists>v. py_round3 (Finite y) = Finite v \<and> 0 \<le> v \<and> v \<le> 1"
proof -
  define k where "k = round_half_even (y * 1000)"
  from assms have "0 \<le> y * 1000" "y * 1000 \<le> of_int 1000" by simp_all
  from round_half_even_range [OF this] have "0 \<le> k" "k \<le> 1000"
    by (simp_all add: k_def)
  then have "(0 :: rat) \<le> of_int k" "(of_int k :: rat) \<le> of_int 1000"
    by (simp_all only: of_int_le_iff of_int_0_le_iff)
  then have "0 \<le> (of_int k / 1000 :: rat)" "(of_int k / 1000 :: rat) \<le> 1"
    by simp_all
  from round_double_unit [OF this] show ?thesis
    by (auto simp: k_def)
qed


lemma round_half_even_eqI:
  assumes "\<bar>of_int k - y\<bar> < 1 / 2 \<or> \<bar>of_int k - y\<bar> = 1 / 2 \<and> even k"
  shows "round_half_even y = k"
proof -
  let ?r = "round_half_even y"
  have c: "\<bar>of_int ?r - y\<bar> \<le> 1 / 2" by (rule round_half_even_close)
  show ?thesis
  proof (rule ccontr)
    assume ne: "?r \<noteq> k"
    from assms have k: "\<bar>of_int k - y\<bar> \<le> 1 / 2" by auto
    have "\<bar>(of_int ?r :: rat) - of_int k\<bar> \<le> 1" using c k by linarith
    then have "\<bar>?r - k\<bar> \<le> 1"
      by (metis of_int_1 of_int_abs of_int_diff of_int_le_iff)
    with ne have d: "?r = k + 1 \<or> ?r = k - 1" by linarith
    then have both: "\<bar>of_int k - y\<bar> = 1 / 2" "\<bar>of_int ?r - y\<bar> = 1 / 2"
      using c k by (auto simp: abs_if split: if_splits)
    from round_half_even_tie [OF both(2)] have "even ?r" .
    moreover from assms both(1) have "even k" by auto
    ultimately show False using d by auto
  qed
qed

lemma round_double_eqI:
  assumes e: "2 powi e \<le> \<bar>x\<bar>" "\<bar>x\<bar> < 2 powi (e + 1)" "- 1022 \<le> e"
    and m: "\<bar>of_int m - x / 2 powi (e - 52)\<bar> < 1 / 2 \<or>
            \<bar>of_int m - x / 2 powi (e - 52)\<bar> = 1 / 2 \<and> even m"
    and fin: "\<bar>of_int m * 2 powi (e - 52)\<bar> < (2::rat) ^ 1024"
  shows "round_double x = Finite (of_int m * 2 powi (e - 52))"
proof -
  have "ilog2 \<bar>x\<bar> = e" using e(1,2) by (rule ilog2_eqI)
  with e(3) have u: "ulp x = 2 powi (e - 52)" by (simp add: ulp_def)
  have "(0::rat) < 2 powi e" by (simp add: zero_less_power_int)
  with e(1) have "0 < \<bar>x\<bar>" by linarith
  then have "x \<noteq> 0" by simp
  moreover have "round_half_even (x / ulp x) = m"
    unfolding u using m by (rule round_half_even_eqI)
  ultimately show ?thesis
    using fin by (simp add: round_double_def Let_def u)
qed

lemma rd_0_9: "round_double (32425917317067571 / 36028797018963968) = Finite (8106479329266893 / 9007199254740992)"
  using round_double_eqI [of "- 1" "32425917317067571 / 36028797018963968" "8106479329266893"]
  by (simp add: power_int_minus)

lemma rd_0_8: "round_double (14411518807585587 / 18014398509481984) = Finite (3602879701896397 / 4503599627370496)"
  using round_double_eqI [of "- 1" "14411518807585587 / 18014398509481984" "7205759403792794"]
  by (simp add: power_int_minus)

lemma rd_900: "round_double (9 / 10) = Finite (8106479329266893 / 9007199254740992)"
  using round_double_eqI [of "- 1" "9 / 10" "8106479329266893"]
  by (simp add: power_int_minus)

lemma rd_800: "round_double (4 / 5) = Finite (3602879701896397 / 4503599627370496)"
  using round_double_eqI [of "- 1" "4 / 5" "7205759403792794"]
  by (simp add: power_int_minus)

lemma rd_m1: "round_double (- 1) = Finite (- 1)"
  using round_double_eqI [of "0" "- 1" "- 4503599627370496"]
  by (simp add: power_int_minus)

lemma rd_tie: "round_double (10133099161583617 / 18014398509481984) = Finite (9 / 16)"
  using round_double_eqI [of "- 1" "10133099161583617 / 18014398509481984" "5066549580791808"]
  by (simp add: power_int_minus)

lemma rd_562: "round_double (281 / 500) = Finite (2531022990582219 / 4503599627370496)"
  using round_double_eqI [of "- 1" "281 / 500" "5062045981164438"]
  by (simp add: power_int_minus)

section \<open>Properties of word splitting\<close>

lemma split_from_blank: "\<forall>c \<in> set u. is_space c \<Longrightarrow> split_from w u = split_from w []"
proof (induction u arbitrary: w)
  case Nil
  show ?case by simp
next
  case (Cons c u)
  then have "split_from [] u = split_from [] []" by simp
  with Cons.prems show ?case by simp
qed

lemma split_from_append_space:
  "is_space c \<Longrightarrow> split_from w (a @ c # b) = split_from w a @ split_from [] b"
  by (induction a arbitrary: w) auto

lemma split_from_append_blank:
  "\<forall>c \<in> set u. is_space c \<Longrightarrow> split_from w (a @ u) = split_from w a"
proof (induction a arbitrary: w)
  case Nil
  then show ?case using split_from_blank [of u w] by simp
next
  case (Cons x a)
  then show ?case by simp
qed

lemma split_ws_dropWhile: "split_ws (dropWhile is_space s) = split_ws s"
  unfolding split_ws_def by (induction s) auto

lemma split_ws_strip: "split_ws (strip s) = split_ws s"
proof -
  let ?t = "dropWhile is_space s"
  have "?t = rev (dropWhile is_space (rev ?t)) @ rev (takeWhile is_space (rev ?t))"
    by (metis rev_append rev_rev_ident takeWhile_dropWhile_id)
  moreover have "\<forall>c \<in> set (rev (takeWhile is_space (rev ?t))). is_space c"
    by (auto dest: set_takeWhileD)
  ultimately have "split_ws ?t = split_ws (rev (dropWhile is_space (rev ?t)))"
    unfolding split_ws_def by (metis split_from_append_blank)
  then show ?thesis
    by (simp add: strip_def split_ws_dropWhile)
qed

lemma split_ws_append_space: "split_ws (a @ [32] @ b) = split_ws a @ split_ws b"
  unfolding split_ws_def using split_from_append_space [of 32 "[]" a b]
  by (simp add: is_space_def)

lemma split_ws_join_Cons:
  "split_ws (join [32] (x # xs)) = split_ws x @ split_ws (join [32] xs)"
proof (cases xs)
  case Nil
  then show ?thesis by (simp add: split_ws_def)
next
  case (Cons y ys)
  then show ?thesis
    using split_ws_append_space [of x "join [32] (y # ys)"] by simp
qed

lemma split_ws_join: "split_ws (join [32] xs) = concat (map split_ws xs)"
proof (induction xs)
  case Nil
  show ?case by (simp add: split_ws_def)
next
  case (Cons x xs)
  then show ?case by (simp only: split_ws_join_Cons list.map concat.simps)
qed

lemma split_from_clean:
  "(\<forall>c \<in> set w. \<not> is_space c) \<Longrightarrow> \<forall>x \<in> set (split_from w s). clean_word x"
proof (induction s arbitrary: w)
  case Nil
  then show ?case by (simp add: clean_word_def)
next
  case (Cons c s)
  have e: "\<forall>c \<in> set ([]::str). \<not> is_space c" by simp
  from Cons.IH [OF e] Cons.IH [of "w @ [c]"] Cons.prems show ?case
    by (auto simp: clean_word_def)
qed

lemma split_ws_clean: "x \<in> set (split_ws s) \<Longrightarrow> clean_word x"
  unfolding split_ws_def using split_from_clean [of "[]" s] by simp

lemma split_from_word:
  "\<forall>c \<in> set x. \<not> is_space c \<Longrightarrow> split_from w x = (if w @ x = [] then [] else [w @ x])"
  by (induction x arbitrary: w) auto

lemma split_ws_word: "clean_word x \<Longrightarrow> split_ws x = [x]"
  unfolding split_ws_def clean_word_def using split_from_word [of x "[]"] by simp

lemma split_ws_join_words: "\<forall>x \<in> set ws. clean_word x \<Longrightarrow> split_ws (join [32] ws) = ws"
  unfolding split_ws_join by (induction ws) (simp_all add: split_ws_word)

lemma split_from_Nil_iff: "split_from w s = [] \<longleftrightarrow> w = [] \<and> (\<forall>c \<in> set s. is_space c)"
  by (induction s arbitrary: w) auto

lemma all_dropWhile_iff: "(\<forall>x \<in> set (dropWhile P s). P x) \<longleftrightarrow> (\<forall>x \<in> set s. P x)"
  by (induction s) auto

lemma strip_Nil_iff: "strip s = [] \<longleftrightarrow> (\<forall>c \<in> set s. is_space c)"
  by (simp add: strip_def all_dropWhile_iff)

lemma split_ws_Nil_iff: "split_ws s = [] \<longleftrightarrow> strip s = []"
  by (simp add: split_ws_def split_from_Nil_iff strip_Nil_iff)


section \<open>Properties of sanitization\<close>

lemma length_collapse_ws: "length (collapse_ws s) \<le> length s"
proof (induction s rule: collapse_ws.induct)
  case 1
  show ?case by simp
next
  case (2 c cs)
  have "length (dropWhile is_space cs) \<le> length cs"
    by (rule length_dropWhile_le)
  with 2 show ?case by (auto intro: order_trans)
qed

lemma collapse_ws_spaces: "c \<in> set (collapse_ws s) \<Longrightarrow> is_space c \<Longrightarrow> c = 32"
proof (induction s rule: collapse_ws.induct)
  case 1
  then show ?case by simp
next
  case (2 d ds)
  then show ?case by (auto split: if_splits)
qed

lemma collapse_ws_set: "set (collapse_ws s) \<subseteq> insert 32 (set s)"
proof (induction s rule: collapse_ws.induct)
  case 1
  show ?case by simp
next
  case (2 c cs)
  have "set (dropWhile is_space cs) \<subseteq> set cs"
    by (auto dest: set_dropWhileD)
  with 2 show ?case by (auto split: if_splits)
qed

lemma collapse_ws_hd: "collapse_ws s \<noteq> [] \<Longrightarrow> is_space (hd (collapse_ws s)) \<Longrightarrow> s \<noteq> [] \<and> is_space (hd s)"
  by (cases s) (auto split: if_splits)

lemma dropWhile_hd_not: "dropWhile P xs \<noteq> [] \<Longrightarrow> \<not> P (hd (dropWhile P xs))"
  by (metis hd_dropWhile)

lemma collapse_ws_no_adjacent:
  "successively (\<lambda>a b. \<not> (is_space a \<and> is_space b)) (collapse_ws s)"
proof (induction s rule: collapse_ws.induct)
  case 1
  show ?case by simp
next
  case (2 c cs)
  show ?case
  proof (cases "is_space c")
    case True
    let ?r = "collapse_ws (dropWhile is_space cs)"
    from True 2 have ih: "successively (\<lambda>a b. \<not> (is_space a \<and> is_space b)) ?r" by simp
    have "?r \<noteq> [] \<Longrightarrow> \<not> is_space (hd ?r)"
      using collapse_ws_hd [of "dropWhile is_space cs"] dropWhile_hd_not [of is_space cs]
      by blast
    with ih True show ?thesis
      by (cases ?r) (auto simp: successively_Cons)
  next
    case False
    with 2 have ih: "successively (\<lambda>a b. \<not> (is_space a \<and> is_space b)) (collapse_ws cs)" by simp
    with False show ?thesis
      by (cases "collapse_ws cs") (auto simp: successively_Cons)
  qed
qed

lemma collapse_ws_content: "filter (\<lambda>c. \<not> is_space c) (collapse_ws s) = filter (\<lambda>c. \<not> is_space c) s"
proof (induction s rule: collapse_ws.induct)
  case 1
  show ?case by simp
next
  case (2 c cs)
  have dw: "filter (\<lambda>c. \<not> is_space c) (dropWhile is_space cs) = filter (\<lambda>c. \<not> is_space c) cs"
    by (induction cs) auto
  have sp: "is_space 32" by (simp add: is_space_def)
  from 2 dw sp show ?case by auto
qed

lemma split_from_collapse_ws: "split_from w (collapse_ws s) = split_from w s"
proof (induction s arbitrary: w rule: collapse_ws.induct)
  case 1
  show ?case by simp
next
  case (2 c cs)
  show ?case
  proof (cases "is_space c")
    case True
    have sp: "is_space 32" by (simp add: is_space_def)
    have "split_from [] (collapse_ws (dropWhile is_space cs)) = split_from [] (dropWhile is_space cs)"
      using "2.IH"(1) [OF True] .
    also have "\<dots> = split_from [] cs"
      using split_ws_dropWhile [of cs] by (simp add: split_ws_def)
    finally show ?thesis using True sp by simp
  next
    case False
    with "2.IH"(2) [OF False, of "w @ [c]"] show ?thesis by simp
  qed
qed

lemma split_ws_collapse_ws: "split_ws (collapse_ws s) = split_ws s"
  by (simp add: split_ws_def split_from_collapse_ws)

lemma collapse_ws_Nil_iff: "collapse_ws s = [] \<longleftrightarrow> s = []"
  by (cases s) simp_all

lemma collapse_ws_hd_space:
  "s \<noteq> [] \<Longrightarrow> is_space (hd (collapse_ws s)) \<longleftrightarrow> is_space (hd s)"
  by (cases s) (simp_all add: is_space_def)

lemma last_dropWhile: "dropWhile P xs \<noteq> [] \<Longrightarrow> last (dropWhile P xs) = last xs"
  by (induction xs) (auto split: if_splits)

lemma collapse_ws_last_space:
  "s \<noteq> [] \<Longrightarrow> is_space (last (collapse_ws s)) \<longleftrightarrow> is_space (last s)"
proof (induction s rule: collapse_ws.induct)
  case 1
  then show ?case by simp
next
  case (2 c cs)
  have sp: "is_space 32" by (simp add: is_space_def)
  show ?case
  proof (cases "is_space c")
    case True
    show ?thesis
    proof (cases "dropWhile is_space cs = []")
      case dn: True
      then have all: "\<forall>x \<in> set cs. is_space x" by (simp add: dropWhile_eq_Nil_conv)
      then have "is_space (last (c # cs))" using True by (cases "cs = []") simp_all
      moreover have "collapse_ws (c # cs) = [32]"
        using True by (simp only: collapse_ws.simps dn if_True)
      ultimately show ?thesis using sp by simp
    next
      case dn: False
      then have cs: "cs \<noteq> []" by auto
      from "2.IH"(1) [OF True dn]
      have "is_space (last (collapse_ws (dropWhile is_space cs))) \<longleftrightarrow>
          is_space (last (dropWhile is_space cs))" .
      moreover have "last (dropWhile is_space cs) = last (c # cs)"
        using last_dropWhile [OF dn] cs by simp
      moreover have "last (collapse_ws (c # cs)) = last (collapse_ws (dropWhile is_space cs))"
      proof -
        have "collapse_ws (dropWhile is_space cs) \<noteq> []"
          using dn by (simp only: collapse_ws_Nil_iff not_False_eq_True)
        then have "last (32 # collapse_ws (dropWhile is_space cs)) =
            last (collapse_ws (dropWhile is_space cs))"
          by (rule last_ConsR)
        then show ?thesis
          using True by (simp only: collapse_ws.simps if_True)
      qed
      ultimately show ?thesis by simp
    qed
  next
    case False
    show ?thesis
    proof (cases "cs = []")
      case True
      with False show ?thesis by simp
    next
      case ne: False
      with "2.IH"(2) [OF False ne] False show ?thesis
        by (simp add: collapse_ws_Nil_iff)
    qed
  qed
qed

text \<open>
  For a string that neither starts nor ends with whitespace, collapsing is joining its
  words with single spaces. The word being read is carried along.
\<close>

lemma collapse_ws_join_from:
  assumes "s \<noteq> [] \<longrightarrow> \<not> is_space (last s)" "s \<noteq> [] \<and> is_space (hd s) \<longrightarrow> w \<noteq> []"
  shows "w @ collapse_ws s = join [32] (split_from w s)"
  using assms
proof (induction s arbitrary: w rule: collapse_ws.induct)
  case 1
  show ?case by simp
next
  case (2 c cs)
  show ?case
  proof (cases "is_space c")
    case True
    with "2.prems" have w: "w \<noteq> []" and cs: "cs \<noteq> []" and l: "\<not> is_space (last cs)"
      by (auto split: if_splits)
    then have dn: "dropWhile is_space cs \<noteq> []"
      by (metis dropWhile_eq_Nil_conv last_in_set)
    have "[] @ collapse_ws (dropWhile is_space cs) = join [32] (split_from [] (dropWhile is_space cs))"
    proof (rule "2.IH"(1) [OF True])
      show "dropWhile is_space cs \<noteq> [] \<longrightarrow> \<not> is_space (last (dropWhile is_space cs))"
        using last_dropWhile [OF dn] l by simp
      show "dropWhile is_space cs \<noteq> [] \<and> is_space (hd (dropWhile is_space cs)) \<longrightarrow> [] \<noteq> ([]::str)"
        using hd_dropWhile [OF dn] by simp
    qed
    moreover have "split_from [] (dropWhile is_space cs) = split_from [] cs"
      using split_ws_dropWhile [of cs] by (simp add: split_ws_def)
    moreover have "split_from [] cs \<noteq> []"
      using l cs by (metis split_from_Nil_iff last_in_set)
    ultimately show ?thesis
      using True w by (cases "split_from [] cs") simp_all
  next
    case False
    have "(w @ [c]) @ collapse_ws cs = join [32] (split_from (w @ [c]) cs)"
      using "2.prems" by (intro "2.IH"(2) [OF False]) (auto split: if_splits)
    with False show ?thesis by simp
  qed
qed

lemma collapse_ws_join:
  "s = [] \<or> \<not> is_space (hd s) \<and> \<not> is_space (last s) \<Longrightarrow>
   collapse_ws s = join [32] (split_ws s)"
  using collapse_ws_join_from [of s "[]"] by (auto simp: split_ws_def)

lemma sanitize_eval_example:
  "sanitize_input (PyStr [32, 97, 0, 9, 10, 98, 32]) = [97, 32, 98]"
  by (simp add: strip_def is_space_def remove_nul_def MAX_INPUT_LENGTH_def)

text \<open>
  Claim C9. For every string input, the sanitized query has at most \<open>MAX_INPUT_LENGTH\<close>
  characters and contains no NUL, and every run of whitespace of the stripped, truncated,
  NUL-free input is collapsed to a single space: the only whitespace left is the space
  character, no two whitespace characters are adjacent, the words (the runs of
  non-whitespace characters) are the same in the same order, and the result starts or
  ends with whitespace exactly when that input does. When that input neither starts nor
  ends with whitespace the result is its words joined by single spaces.
\<close>

theorem sanitize_input_clean:
  "length (sanitize_input (PyStr q)) \<le> MAX_INPUT_LENGTH \<and>
   0 \<notin> set (sanitize_input (PyStr q)) \<and>
   (\<forall>c \<in> set (sanitize_input (PyStr q)). is_space c \<longrightarrow> c = 32) \<and>
   successively (\<lambda>a b. \<not> (is_space a \<and> is_space b)) (sanitize_input (PyStr q)) \<and>
   filter (\<lambda>c. \<not> is_space c) (sanitize_input (PyStr q)) =
     filter (\<lambda>c. \<not> is_space c) (remove_nul (take MAX_INPUT_LENGTH (strip q))) \<and>
   split_ws (sanitize_input (PyStr q)) =
     split_ws (remove_nul (take MAX_INPUT_LENGTH (strip q))) \<and>
   (sanitize_input (PyStr q) = [] \<longleftrightarrow> remove_nul (take MAX_INPUT_LENGTH (strip q)) = []) \<and>
   (remove_nul (take MAX_INPUT_LENGTH (strip q)) \<noteq> [] \<longrightarrow>
      (is_space (hd (sanitize_input (PyStr q))) \<longleftrightarrow>
         is_space (hd (remove_nul (take MAX_INPUT_LENGTH (strip q))))) \<and>
      (is_space (last (sanitize_input (PyStr q))) \<longleftrightarrow>
         is_space (last (remove_nul (take MAX_INPUT_LENGTH (strip q)))))) \<and>
   (remove_nul (take MAX_INPUT_LENGTH (strip q)) = [] \<or>
    \<not> is_space (hd (remove_nul (take MAX_INPUT_LENGTH (strip q)))) \<and>
    \<not> is_space (last (remove_nul (take MAX_INPUT_LENGTH (strip q)))) \<longrightarrow>
      sanitize_input (PyStr q) =
        join [32] (split_ws (remove_nul (take MAX_INPUT_LENGTH (strip q)))))"
proof -
  let ?t = "remove_nul (take MAX_INPUT_LENGTH (strip q))"
  have eq: "sanitize_input (PyStr q) = collapse_ws ?t"
  proof (cases "q = []")
    case True
    then show ?thesis by (simp add: strip_def remove_nul_def)
  next
    case False
    then show ?thesis by simp
  qed
  have "length (collapse_ws ?t) \<le> length ?t"
    by (rule length_collapse_ws)
  also have "length ?t \<le> length (take MAX_INPUT_LENGTH (strip q))"
    unfolding remove_nul_def by (rule length_filter_le)
  also have "\<dots> \<le> MAX_INPUT_LENGTH"
    by simp
  finally have len: "length (collapse_ws ?t) \<le> MAX_INPUT_LENGTH" .
  have "0 \<notin> set ?t"
    by (simp add: remove_nul_def)
  with collapse_ws_set [of ?t] have nul: "0 \<notin> set (collapse_ws ?t)"
    by auto
  have sp: "\<forall>c \<in> set (collapse_ws ?t). is_space c \<longrightarrow> c = 32"
    using collapse_ws_spaces by blast
  have ends: "?t \<noteq> [] \<longrightarrow>
      (is_space (hd (collapse_ws ?t)) \<longleftrightarrow> is_space (hd ?t)) \<and>
      (is_space (last (collapse_ws ?t)) \<longleftrightarrow> is_space (last ?t))"
    using collapse_ws_hd_space [of ?t] collapse_ws_last_space [of ?t] by blast
  have joined: "?t = [] \<or> \<not> is_space (hd ?t) \<and> \<not> is_space (last ?t) \<longrightarrow>
      collapse_ws ?t = join [32] (split_ws ?t)"
    using collapse_ws_join [of ?t] by blast
  from len nul sp collapse_ws_no_adjacent [of ?t] collapse_ws_content [of ?t]
    split_ws_collapse_ws [of ?t] collapse_ws_Nil_iff [of ?t] ends joined
  show ?thesis
    unfolding eq by blast
qed

theorem sanitize_input_clean_witness:
  "sanitize_input (PyStr [32, 97, 0, 9, 10, 98, 32]) = [97, 32, 98] \<and>
   length [97, 32, 98 :: nat] \<le> MAX_INPUT_LENGTH \<and>
   successively (\<lambda>a b. \<not> (is_space a \<and> is_space b)) [97, 32, 98] \<and>
   split_ws [97, 32, 98] = split_ws (remove_nul (take MAX_INPUT_LENGTH (strip [32, 97, 0, 9, 10, 98, 32]))) \<and>
   split_ws [97, 32, 98] = [[97], [98]]"
proof -
  have w: "split_ws [97, 32, 98] = [[97], [98]]"
    by (simp add: split_ws_def is_space_def)
  show ?thesis
    using sanitize_input_clean [of "[32, 97, 0, 9, 10, 98, 32]"] w
    unfolding sanitize_eval_example by simp
qed

section \<open>Properties of the chatbot operations\<close>

lemma length_lastn: "length (lastn n xs) = min n (length xs)"
  by (auto simp: lastn_def)

lemma suffix_lastn: "suffix (lastn n xs) xs"
  by (simp add: lastn_def suffix_drop)

lemma length_truncate_history: "length (truncate_history h) \<le> MAX_HISTORY_MESSAGES * 2"
  by (simp add: truncate_history_def length_lastn)

lemma truncate_history_drop:
  "truncate_history h = drop (length h - MAX_HISTORY_MESSAGES * 2) h"
  by (simp add: truncate_history_def lastn_def)

lemma retrieve_documents_history:
  "conversation_history (snd (retrieve_documents env q k self)) = conversation_history self"
  by (simp add: retrieve_documents_def Let_def)

lemma retrieve_documents_log:
  "call_log (snd (retrieve_documents env q k self)) =
     call_log self @ [Embed q, Query (encode env q) k]"
  by (simp add: retrieve_documents_def Let_def)

lemma generate_response_returns: "\<exists>r. fst (generate_response env messages self) = Inr r"
  by (simp add: generate_response_def Let_def split: sum.splits exn.splits)

lemma generate_response_state:
  "snd (generate_response env messages self) = self\<lparr>call_log := call_log self @ [Generate messages]\<rparr>"
  by (simp add: generate_response_def Let_def split: sum.splits exn.splits)

text \<open>The ways through \<open>answer\<close>.\<close>

lemma answer_invalid:
  "sanitize_input query = [] \<Longrightarrow> answer env query top_k self = (Inr (MSG_INVALID, [], 0, 0), self)"
  by (simp add: answer_def)

lemma answer_retrieval_raises:
  "sanitize_input query \<noteq> [] \<Longrightarrow>
   fst (retrieve_documents env (sanitize_input query) top_k self) = Inl e \<Longrightarrow>
   answer env query top_k self =
     (Inl (Error e), snd (retrieve_documents env (sanitize_input query) top_k self))"
  by (cases "retrieve_documents env (sanitize_input query) top_k self") (simp add: answer_def)

lemma answer_empty_context:
  "sanitize_input query \<noteq> [] \<Longrightarrow>
   fst (retrieve_documents env (sanitize_input query) top_k self) = Inr ([], sources) \<Longrightarrow>
   answer env query top_k self =
     (Inr (MSG_NOT_FOUND, [], 0, 0), snd (retrieve_documents env (sanitize_input query) top_k self))"
  by (cases "retrieve_documents env (sanitize_input query) top_k self") (simp add: answer_def)

lemma answer_generates:
  assumes "sanitize_input query \<noteq> []"
    and "fst (retrieve_documents env (sanitize_input query) top_k self) = Inr (context, sources)"
    and "context \<noteq> []"
  shows "\<exists>a t l.
     fst (generate_response env (build_messages self (sanitize_input query) context)
            (snd (retrieve_documents env (sanitize_input query) top_k self))) = Inr (a, t, l) \<and>
     answer env query top_k self =
       (Inr (a, sources, t, l),
        \<lparr>conversation_history = truncate_history (conversation_history self @
            [\<lparr>role = ascii ''user'', content = sanitize_input query\<rparr>,
             \<lparr>role = ascii ''assistant'', content = a\<rparr>]),
         call_log = call_log self @
            [Embed (sanitize_input query), Query (encode env (sanitize_input query)) top_k,
             Generate (build_messages self (sanitize_input query) context)]\<rparr>)"
proof -
  let ?q = "sanitize_input query"
  obtain r self1 where rd: "retrieve_documents env ?q top_k self = (r, self1)"
    by (cases "retrieve_documents env ?q top_k self")
  with assms(2) have r: "r = Inr (context, sources)" by simp
  have s1: "self1 = self\<lparr>call_log := call_log self @ [Embed ?q, Query (encode env ?q) top_k]\<rparr>"
    using rd by (simp add: retrieve_documents_def Let_def)
  have bm: "build_messages self1 ?q context = build_messages self ?q context"
    by (simp add: s1 build_messages_def)
  obtain g where g: "fst (generate_response env (build_messages self ?q context) self1) = Inr g"
    using generate_response_returns by blast
  obtain a t l where gt: "g = (a, t, l)" by (cases g)
  obtain x self2 where gr: "generate_response env (build_messages self ?q context) self1 = (x, self2)"
    by (cases "generate_response env (build_messages self ?q context) self1")
  with g gt have x: "x = Inr (a, t, l)" by simp
  have s2: "self2 = self1\<lparr>call_log := call_log self1 @ [Generate (build_messages self ?q context)]\<rparr>"
    using generate_response_state [of env "build_messages self ?q context" self1] gr by simp
  have "answer env query top_k self =
       (Inr (a, sources, t, l),
        self2\<lparr>conversation_history := truncate_history (conversation_history self2 @
            [\<lparr>role = ascii ''user'', content = ?q\<rparr>,
             \<lparr>role = ascii ''assistant'', content = a\<rparr>])\<rparr>)"
    using assms(1,3) by (simp add: answer_def rd r bm gr x Let_def)
  moreover have "fst (generate_response env (build_messages self ?q context)
            (snd (retrieve_documents env ?q top_k self))) = Inr (a, t, l)"
    using g gt rd by simp
  ultimately show ?thesis
    by (simp add: s2 s1)
qed


lemma sanitize_blank: "\<forall>c \<in> set q. is_space c \<Longrightarrow> sanitize_input (PyStr q) = []"
proof -
  assume a: "\<forall>c \<in> set q. is_space c"
  then have d: "dropWhile is_space q = []" by (simp add: dropWhile_eq_Nil_conv)
  have "strip q = []" by (simp only: strip_def d rev.simps dropWhile.simps)
  then show ?thesis by (simp add: remove_nul_def)
qed

lemma picks_all:
  "picks seen ts =
     filter (\<lambda>p. site_at ts p \<notin> seen \<and> (\<forall>p'<p. site_at ts p' \<noteq> site_at ts p)) [0..<length ts]"
  by (auto simp: picks_def list_all_iff intro!: filter_cong)

lemma picks_Nil: "picks seen [] = []"
  by (simp add: picks_def)

lemma picks_Cons:
  "picks seen (t # ts) =
     (if site_name_of (snd (snd t)) \<in> seen then map Suc (picks seen ts)
      else 0 # map Suc (picks (insert (site_name_of (snd (snd t))) seen) ts))"
proof -
  let ?s = "site_name_of (snd (snd t))"
  let ?P = "\<lambda>p. site_at (t # ts) p \<notin> seen \<and> (\<forall>p'<p. site_at (t # ts) p' \<noteq> site_at (t # ts) p)"
  note picks_def = picks_all
  have "[0..<Suc (length ts)] = 0 # [Suc 0..<Suc (length ts)]"
    by (rule upt_conv_Cons) simp
  then have upt: "[0..<length (t # ts)] = 0 # map Suc [0..<length ts]"
    by (simp only: map_Suc_upt list.size add_Suc_right add_0_right One_nat_def Suc_eq_plus1 [symmetric])
  define Q where "Q p \<longleftrightarrow> ?P (Suc p)" for p
  have shift: "filter ?P (map Suc [0..<length ts]) = map Suc (filter Q [0..<length ts])"
    by (simp add: filter_map comp_def Q_def [abs_def])
  have P0: "?P 0 \<longleftrightarrow> ?s \<notin> seen"
    by (simp add: site_at_def)
  have PS: "Q p \<longleftrightarrow>
      site_at ts p \<notin> seen \<and> ?s \<noteq> site_at ts p \<and> (\<forall>p'<p. site_at ts p' \<noteq> site_at ts p)" for p
    by (simp add: Q_def site_at_def All_less_Suc2)
  show ?thesis
  proof (cases "?s \<in> seen")
    case True
    have "filter Q [0..<length ts] = picks seen ts"
      unfolding picks_def using True by (intro filter_cong refl) (auto simp: PS)
    with True P0 shift upt show ?thesis
      by (simp add: picks_def)
  next
    case False
    have "filter Q [0..<length ts] = picks (insert ?s seen) ts"
      unfolding picks_def by (intro filter_cong refl) (auto simp: PS)
    with False P0 shift upt show ?thesis
      by (simp add: picks_def)
  qed
qed

lemma retrieve_loop_result:
  "retrieve_loop ds ts (parts, srcs, seen) = Inr (parts', srcs', seen') \<Longrightarrow>
   parts' = parts @ map (\<lambda>t. strip (fst (snd t))) ts \<and>
   srcs' = srcs @ map (source_at ds ts) (picks seen ts) \<and>
   (\<forall>p \<in> set (picks seen ts). \<exists>d. get_distance ds (fst (ts ! p)) = Inr d)"
proof (induction ts arbitrary: parts srcs seen)
  case Nil
  then show ?case by (simp add: picks_Nil)
next
  case (Cons t ts)
  obtain i doc_text meta where t: "t = (i, doc_text, meta)"
    by (cases t)
  let ?s = "site_name_of meta"
  have sa: "source_at ds (x # ts) (Suc p) = source_at ds ts p" for x p
    by (simp add: source_at_def)
  show ?case
  proof (cases "?s \<in> seen")
    case True
    with Cons.prems t have
      "retrieve_loop ds ts (parts @ [strip doc_text], srcs, seen) = Inr (parts', srcs', seen')"
      by (simp add: Let_def)
    from Cons.IH [OF this] True t show ?thesis
      by (simp add: picks_Cons sa)
  next
    case False
    with Cons.prems t obtain d where d: "get_distance ds i = Inr d"
      and rec: "retrieve_loop ds ts
          (parts @ [strip doc_text], srcs @ [make_source meta d], insert ?s seen) =
          Inr (parts', srcs', seen')"
      by (auto simp: Let_def split: sum.splits)
    have "source_at ds (t # ts) 0 = make_source meta d"
      by (simp add: source_at_def t d)
    with Cons.IH [OF rec] False t d show ?thesis
      by (simp add: picks_Cons sa)
  qed
qed


lemma first_of_site_iff:
  "first_of_site metas i \<longleftrightarrow> (\<forall>j<i. site_name_of (metas ! j) \<noteq> site_name_of (metas ! i))"
  by (auto simp: first_of_site_def list_all_iff)

lemma enumerate_zip_nth:
  "p < min (length xs) (length ys) \<Longrightarrow> enumerate_zip xs ys ! p = (p, xs ! p, ys ! p)"
  by (simp add: enumerate_zip_def)

lemma length_enumerate_zip: "length (enumerate_zip xs ys) = min (length xs) (length ys)"
  by (simp add: enumerate_zip_def)

lemma picks_enumerate_zip:
  "picks {} (enumerate_zip docs metas) = first_occurrences metas (min (length docs) (length metas))"
  unfolding picks_all first_occurrences_def length_enumerate_zip
  by (intro filter_cong refl) (auto simp: site_at_def enumerate_zip_nth first_of_site_iff)

lemma set_first_occurrences:
  "i \<in> set (first_occurrences metas n) \<longleftrightarrow> i < n \<and> first_of_site metas i"
  by (auto simp: first_occurrences_def)

lemma sorted_first_occurrences: "sorted_wrt (<) (first_occurrences metas n)"
  unfolding first_occurrences_def by (rule sorted_wrt_filter) (simp add: sorted_wrt_upt)

lemma distinct_sites_first_occurrences:
  "distinct (map (\<lambda>i. site_name_of (metas ! i)) (first_occurrences metas n))"
proof -
  have "inj_on (\<lambda>i. site_name_of (metas ! i)) (set (first_occurrences metas n))"
  proof (rule inj_onI)
    fix i k
    assume i: "i \<in> set (first_occurrences metas n)" and k: "k \<in> set (first_occurrences metas n)"
      and eq: "site_name_of (metas ! i) = site_name_of (metas ! k)"
    from i k have "first_of_site metas i" "first_of_site metas k"
      by (simp_all add: set_first_occurrences)
    with eq have "\<not> i < k" "\<not> k < i"
      by (auto simp: first_of_site_iff)
    then show "i = k" by simp
  qed
  moreover have "distinct (first_occurrences metas n)"
    by (simp add: first_occurrences_def)
  ultimately show ?thesis
    by (simp add: distinct_map)
qed

lemma first_occurrence_exists:
  assumes "i < n"
  shows "\<exists>j \<in> set (first_occurrences metas n). site_name_of (metas ! j) = site_name_of (metas ! i)"
proof -
  define j where "j = (LEAST j. site_name_of (metas ! j) = site_name_of (metas ! i))"
  have eq: "site_name_of (metas ! j) = site_name_of (metas ! i)"
    unfolding j_def by (rule LeastI [of _ i]) simp
  have "j \<le> i"
    unfolding j_def by (rule Least_le) simp
  have "first_of_site metas j"
    unfolding first_of_site_iff
  proof (intro allI impI)
    fix k assume "k < j"
    then have "site_name_of (metas ! k) \<noteq> site_name_of (metas ! i)"
      unfolding j_def by (rule not_less_Least)
    with eq show "site_name_of (metas ! k) \<noteq> site_name_of (metas ! j)" by simp
  qed
  with \<open>j \<le> i\<close> assms eq show ?thesis
    by (auto simp: set_first_occurrences)
qed

lemma assemble_results_hits:
  assumes ok: "assemble_results r = Inr (ctx, srcs)"
    and docs: "documents r = Some (docs # dr)" "docs \<noteq> []"
  shows "\<exists>metas mr. metadatas r = Some (metas # mr) \<and>
     ctx = join [10, 10] (map strip (take (length metas) docs)) \<and>
     srcs = map (\<lambda>i. make_source (metas ! i) (projr (get_distance (distances r) i)))
              (first_occurrences metas (min (length docs) (length metas))) \<and>
     (\<forall>i \<in> set (first_occurrences metas (min (length docs) (length metas))).
        \<exists>d. get_distance (distances r) i = Inr d)"
proof -
  from ok docs obtain metas mr where m: "metadatas r = Some (metas # mr)"
    by (auto simp: assemble_results_def split: option.splits list.splits)
  let ?ts = "enumerate_zip docs metas"
  let ?n = "min (length docs) (length metas)"
  from ok docs m obtain parts seen where
    loop: "retrieve_loop (distances r) ?ts ([], [], {}) = Inr (parts, srcs, seen)"
    and ctx: "ctx = join [10, 10] parts"
    by (auto simp: assemble_results_def split: sum.splits)
  note res = retrieve_loop_result [OF loop]
  have parts: "parts = map strip (take (length metas) docs)"
  proof -
    have "map snd ?ts = zip docs metas"
      unfolding enumerate_zip_def by (rule map_snd_zip) simp
    moreover have "map (\<lambda>t. strip (fst (snd t))) ?ts = map strip (map fst (map snd ?ts))"
      by (simp add: comp_def)
    ultimately have "map (\<lambda>t. strip (fst (snd t))) ?ts = map strip (map fst (zip docs metas))"
      by (simp only:)
    also have "map fst (zip docs metas) = take (length metas) docs"
      by (simp add: map_fst_zip_take min_def)
    finally show ?thesis using res by simp
  qed
  have src: "map (source_at (distances r) ?ts) (first_occurrences metas ?n) =
      map (\<lambda>i. make_source (metas ! i) (projr (get_distance (distances r) i)))
        (first_occurrences metas ?n)"
    by (rule map_cong [OF refl]) (simp add: set_first_occurrences source_at_def enumerate_zip_nth)
  have dist: "\<forall>i \<in> set (first_occurrences metas ?n). \<exists>d. get_distance (distances r) i = Inr d"
  proof
    fix i assume i: "i \<in> set (first_occurrences metas ?n)"
    with res have "\<exists>d. get_distance (distances r) (fst (?ts ! i)) = Inr d"
      by (simp add: picks_enumerate_zip)
    with i show "\<exists>d. get_distance (distances r) i = Inr d"
      by (simp add: set_first_occurrences enumerate_zip_nth)
  qed
  from m ctx parts res src dist show ?thesis
    by (simp add: picks_enumerate_zip)
qed

lemma assemble_results_no_hits:
  "documents r = None \<or> documents r = Some [] \<or> (\<exists>dr. documents r = Some ([] # dr)) \<Longrightarrow>
   assemble_results r = Inr ([], [])"
  by (auto simp: assemble_results_def)

lemma assemble_results_cases:
  obtains "documents r = None \<or> documents r = Some [] \<or> (\<exists>dr. documents r = Some ([] # dr))"
  | docs dr where "documents r = Some (docs # dr)" "docs \<noteq> []"
proof (cases "documents r")
  case None
  then show ?thesis using that by simp
next
  case (Some a)
  then show ?thesis using that by (cases a) auto
qed

lemma sorted_wrt_nths:
  assumes "sorted_wrt P row" "sorted_wrt (<) is" "\<forall>i \<in> set is. i < length row"
  shows "sorted_wrt P (map ((!) row) is)"
proof -
  have "sorted_wrt (\<lambda>i j. P (row ! i) (row ! j)) is"
  proof (rule sorted_wrt_mono_rel [OF _ assms(2)])
    fix i j
    assume "i \<in> set is" "j \<in> set is" "i < j"
    with assms(3) have "i < j" "j < length row" by simp_all
    with assms(1) show "P (row ! i) (row ! j)"
      by (simp add: sorted_wrt_iff_nth_less)
  qed
  then show ?thesis
    by (simp add: sorted_wrt_map)
qed

lemma site_make_source: "site (make_source m d) = site_name_of m"
  by (simp add: make_source_def)

lemma relevance_make_source: "relevance (make_source m d) = relevance_of d"
  by (simp add: make_source_def)

lemma fst_retrieve_documents:
  "fst (retrieve_documents env query top_k self) =
     assemble_results (collection_query env (encode env query) top_k)"
  by (simp add: retrieve_documents_def Let_def)

section \<open>The history window\<close>

lemma load_loop_length: "length (snd (load_loop msgs h)) \<le> length h + length msgs"
proof (induction msgs arbitrary: h)
  case Nil
  show ?case by simp
next
  case (Cons msg msgs)
  show ?case
  proof (cases "msg (ascii ''role'')")
    case None
    then show ?thesis by simp
  next
    case (Some r)
    show ?thesis
    proof (cases "msg (ascii ''content'')")
      case None
      with Some show ?thesis by simp
    next
      case (Some c)
      with \<open>msg (ascii ''role'') = Some r\<close> Cons.IH [of "h @ [\<lparr>role = r, content = c\<rparr>]"]
      show ?thesis by simp
    qed
  qed
qed

lemma load_history_bound:
  "length (conversation_history (snd (load_history_from_messages messages self))) \<le>
     MAX_HISTORY_MESSAGES"
proof -
  have "length (snd (load_loop (lastn MAX_HISTORY_MESSAGES messages) [])) \<le>
      length (lastn MAX_HISTORY_MESSAGES messages)"
    using load_loop_length [of "lastn MAX_HISTORY_MESSAGES messages" "[]"] by simp
  also have "\<dots> \<le> MAX_HISTORY_MESSAGES"
    by (simp add: length_lastn)
  finally show ?thesis
    by (auto simp: load_history_from_messages_def split: prod.splits)
qed

lemma answer_history_cases:
  "conversation_history (snd (answer env query top_k self)) = conversation_history self \<or>
   (\<exists>a. conversation_history (snd (answer env query top_k self)) =
      truncate_history (conversation_history self @
        [\<lparr>role = ascii ''user'', content = sanitize_input query\<rparr>,
         \<lparr>role = ascii ''assistant'', content = a\<rparr>]))"
proof (cases "sanitize_input query = []")
  case True
  then show ?thesis by (simp add: answer_invalid)
next
  case False
  show ?thesis
  proof (cases "fst (retrieve_documents env (sanitize_input query) top_k self)")
    case (Inl e)
    from answer_retrieval_raises [OF False Inl] show ?thesis
      by (simp add: retrieve_documents_history)
  next
    case (Inr r)
    obtain ctx srcs where r: "r = (ctx, srcs)" by (cases r)
    show ?thesis
    proof (cases "ctx = []")
      case True
      with Inr r answer_empty_context [OF False, of env top_k self srcs] show ?thesis
        by (simp add: retrieve_documents_history)
    next
      case nonempty: False
      from Inr r have "fst (retrieve_documents env (sanitize_input query) top_k self) =
          Inr (ctx, srcs)" by simp
      from answer_generates [OF False this nonempty] show ?thesis
        by auto
    qed
  qed
qed

lemma reachable_history_bound:
  "reachable self \<Longrightarrow> length (conversation_history self) \<le> MAX_HISTORY_MESSAGES * 2"
proof (induction rule: reachable.induct)
  case reach_init
  show ?case by (simp add: init_chatbot_def)
next
  case (reach_answer self env query top_k)
  with answer_history_cases [of env query top_k self] show ?case
    by (auto simp: length_truncate_history)
next
  case (reach_load self messages)
  from load_history_bound [of messages self] show ?case by simp
next
  case (reach_clear self)
  show ?case by (simp add: clear_history_def)
qed

section \<open>The decimal rendering of integers\<close>

lemma digits_are_decimal: "c \<in> set (digits n) \<Longrightarrow> 48 \<le> c \<and> c \<le> 57"
proof (induction n rule: digits.induct)
  case (1 n)
  show ?case
  proof (cases "n < 10")
    case True
    with "1.prems" show ?thesis by (simp add: digits.simps [of n])
  next
    case False
    with "1.prems" have "c \<in> set (digits (n div 10)) \<or> c = 48 + n mod 10"
      by (auto simp: digits.simps [of n])
    with "1.IH" [OF False] show ?thesis by auto
  qed
qed

lemma decimal_value_snoc: "decimal_value (s @ [c]) = 10 * decimal_value s + (c - 48)"
  by (simp add: decimal_value_def)

lemma decimal_value_digits: "decimal_value (digits n) = n"
proof (induction n rule: digits.induct)
  case (1 n)
  show ?case
  proof (cases "n < 10")
    case True
    then show ?thesis by (simp add: digits.simps [of n] decimal_value_def)
  next
    case False
    with "1.IH" [OF False] show ?thesis
      by (simp add: digits.simps [of n] decimal_value_snoc)
  qed
qed

lemma digits_nonempty: "digits n \<noteq> []"
  by (simp add: digits.simps [of n])

lemma digits_no_leading_zero: "hd (digits n) = 48 \<Longrightarrow> n = 0"
proof (induction n rule: digits.induct)
  case (1 n)
  show ?case
  proof (cases "n < 10")
    case True
    with "1.prems" show ?thesis by (simp add: digits.simps [of n])
  next
    case False
    with "1.prems" have "hd (digits (n div 10)) = 48"
      by (simp add: digits.simps [of n] digits_nonempty)
    with "1.IH" [OF False] False show ?thesis by simp
  qed
qed

lemma str_of_int_nonneg:
  "0 \<le> i \<Longrightarrow> str_of_int i = digits (nat i)"
  by (simp add: str_of_int_def)

lemma str_of_int_500: "str_of_int 500 = [53, 48, 48]"
  by (simp add: str_of_int_def digits.simps)

lemma str_of_int_neg: "str_of_int (- 7) = [45, 55]"
  by (simp add: str_of_int_def digits.simps)

section \<open>Evaluation of the example inputs\<close>

text \<open>
  The float operations at the values used below. Each double is given by its binary
  exponent and its significand, and the rounding is checked against them.
\<close>

lemma round_double_three_quarters: "round_double (3 / 4) = Finite (3 / 4)"
  using round_double_eqI [of "- 1" "3 / 4" "6755399441055744"]
  by (simp add: power_int_minus)

lemma round_double_half: "round_double (1 / 2) = Finite (1 / 2)"
  using round_double_eqI [of "- 1" "1 / 2" "4503599627370496"]
  by (simp add: power_int_minus)

lemma round_double_minus_one: "round_double (- 1) = Finite (- 1)"
  using round_double_eqI [of "0" "- 1" "- 4503599627370496"]
  by (simp add: power_int_minus)

text \<open>
  The difference \<open>1 - d\<close> for the double \<open>d\<close> just below \<open>0.4375\<close> lies halfway between two
  doubles and is rounded to \<open>0.5625\<close>; \<open>round(0.5625, 3)\<close> is then a tie of the decimal
  rounding and gives the double nearest to \<open>0.562\<close>.
\<close>

lemma round_double_tie: "round_double (10133099161583617 / 18014398509481984) = Finite (9 / 16)"
  using round_double_eqI [of "- 1" "10133099161583617 / 18014398509481984" "5066549580791808"]
  by (simp add: power_int_minus)

lemma round_double_562: "round_double (281 / 500) = Finite (2531022990582219 / 4503599627370496)"
  using round_double_eqI [of "- 1" "281 / 500" "5062045981164438"]
  by (simp add: power_int_minus)

lemma round_half_even_562: "round_half_even (9 / 16 * 1000) = 562"
  by (rule round_half_even_eqI) simp

lemma relevance_of_three_quarters:
  "relevance_of (Some (Finite (1 / 4))) = Some (Finite (3 / 4))"
proof -
  have "round_half_even (3 / 4 * 1000) = 750"
    by (rule round_half_even_eqI) simp
  then show ?thesis
    by (simp add: relevance_of_def float_truthy_def round_double_three_quarters)
qed

lemma relevance_of_half:
  "relevance_of (Some (Finite (1 / 2))) = Some (Finite (1 / 2))"
proof -
  have "round_half_even (1 / 2 * 1000) = 500"
    by (rule round_half_even_eqI) simp
  then show ?thesis
    by (simp add: relevance_of_def float_truthy_def round_double_half)
qed

lemma relevance_of_two: "relevance_of (Some (Finite 2)) = Some (Finite (- 1))"
proof -
  have "round_half_even (- 1 * 1000) = - 1000"
    by (rule round_half_even_eqI) simp
  then show ?thesis
    by (simp add: relevance_of_def float_truthy_def round_double_minus_one)
qed

lemma relevance_of_tie:
  "relevance_of (Some (Finite (7881299347898367 / 18014398509481984))) = Some (Finite (2531022990582219 / 4503599627370496))"
proof -
  have "1 - (7881299347898367 / 18014398509481984 :: rat) = 10133099161583617 / 18014398509481984"
    by simp
  then have "float_sub (Finite 1) (Finite (7881299347898367 / 18014398509481984)) = Finite (9 / 16)"
    by (simp only: float_sub.simps round_double_tie)
  then show ?thesis
    using round_half_even_562
    by (simp add: relevance_of_def float_truthy_def round_double_562)
qed

lemma three_hits_eval:
  "fst (retrieve_documents (example_services three_hits) (ascii ''a'') 5 init_chatbot) =
     Inr (ascii ''Carthage.'' @ [10, 10] @ ascii ''Dougga.'' @ [10, 10] @ ascii ''Thermes.'',
          [\<lparr>site = ascii ''Carthage'', source = ascii ''inconnu'', ville = [], periode = [],
             coordonnees = [], relevance = Some (Finite (3 / 4))\<rparr>,
           \<lparr>site = ascii ''Dougga'', source = ascii ''inconnu'', ville = [], periode = [],
             coordonnees = [], relevance = Some (Finite (1 / 2))\<rparr>])"
  by (simp add: fst_retrieve_documents example_services_def three_hits_def
      assemble_results_def enumerate_zip_def site_name_of_def dict_get_def make_source_def
      get_distance_def strip_def is_space_def ascii_def upt_rec Let_def
      relevance_of_three_quarters relevance_of_half)

lemma far_hit_eval:
  "fst (retrieve_documents (example_services far_hit) (ascii ''a'') 5 init_chatbot) =
     Inr (ascii ''Dougga.'',
          [\<lparr>site = ascii ''Dougga'', source = ascii ''inconnu'', ville = [], periode = [],
             coordonnees = [], relevance = Some (Finite (- 1))\<rparr>])"
  by (simp add: fst_retrieve_documents example_services_def far_hit_def
      assemble_results_def enumerate_zip_def site_name_of_def dict_get_def make_source_def
      get_distance_def strip_def is_space_def ascii_def Let_def relevance_of_two)

lemma tie_hit_eval:
  "fst (retrieve_documents (example_services tie_hit) (ascii ''a'') 5 init_chatbot) =
     Inr (ascii ''Dougga.'',
          [\<lparr>site = ascii ''Dougga'', source = ascii ''inconnu'', ville = [], periode = [],
             coordonnees = [], relevance = Some (Finite (2531022990582219 / 4503599627370496))\<rparr>])"
  by (simp add: fst_retrieve_documents example_services_def tie_hit_def
      assemble_results_def enumerate_zip_def site_name_of_def dict_get_def make_source_def
      get_distance_def strip_def is_space_def ascii_def Let_def relevance_of_tie)

lemma no_hits_eval:
  "fst (retrieve_documents (example_services no_hits) q k self) = Inr ([], [])"
  by (simp add: fst_retrieve_documents example_services_def no_hits_def assemble_results_def)

text \<open>
  The truthiness test of \<^verbatim>\<open>round(1 - distance, 3) if distance else None\<close> at the
  distance \<open>0.0\<close> of an exact match: the store supplies it and the relevance is
  \<^verbatim>\<open>None\<close>.
\<close>

lemma zero_distance_relevance:
  "get_distance (Some [[Finite 0]]) 0 = Inr (Some (Finite 0)) \<and>
   relevance_of (Some (Finite 0)) = None"
  by (simp add: get_distance_def relevance_of_def float_truthy_def)

lemma sanitize_a: "sanitize_input (PyStr (ascii ''a'')) = ascii ''a''"
  by (simp add: ascii_def strip_def is_space_def remove_nul_def MAX_INPUT_LENGTH_def)

section \<open>The claims about retrieval, generation and the orchestrator\<close>

text \<open>
  Claim C1, as amended. The claim says that relevance is \<open>1 - distance\<close>, a value in
  \<open>[0, 1]\<close>, whenever the store supplies a distance. The code computes
  \<^verbatim>\<open>round(1 - distance, 3)\<close> in float arithmetic and does not clamp it, so a distance above 1
  gives a negative relevance (the counterexample below). What holds, for every entry of
  the sources list of a retrieval call that returns, built from result \<open>i\<close>: the relevance
  is \<^verbatim>\<open>None\<close> when the store supplies no distances; when it supplies a distance that is
  not zero, the relevance is the float \<^verbatim>\<open>round(1 - distance, 3)\<close>, which is a NaN or an
  infinity for a NaN or an infinite distance; and for a finite distance \<open>d\<close> that is not
  zero, with \<open>1 - d\<close> between \<open>-4\<close> and \<open>4\<close>, it is the double \<open>v\<close> nearest to \<open>n / 1000\<close>
  (within \<open>1 / 2 ^ 51\<close> of it), where the integer \<open>n\<close> is nearest to \<open>1000 * y\<close> (a tie going to the even \<open>n\<close>) and \<open>y\<close>
  is the double result of \<open>1 - d\<close>, within \<open>1 / 2 ^ 51\<close> of it; \<open>v\<close> lies in \<open>[0, 1]\<close> when
  \<open>0 \<le> d \<le> 1\<close>.
\<close>

theorem relevance_rounded_from_distance:
  assumes "fst (retrieve_documents env query top_k self) = Inr (context, sources)"
    and "k < length sources"
  shows "\<exists>docs dr metas mr i.
     documents (collection_query env (encode env query) top_k) = Some (docs # dr) \<and>
     metadatas (collection_query env (encode env query) top_k) = Some (metas # mr) \<and>
     k < length (first_occurrences metas (min (length docs) (length metas))) \<and>
     i = first_occurrences metas (min (length docs) (length metas)) ! k \<and>
     site (sources ! k) = site_name_of (metas ! i) \<and>
     ((distances (collection_query env (encode env query) top_k) = None \<or>
       distances (collection_query env (encode env query) top_k) = Some []) \<longrightarrow>
        relevance (sources ! k) = None) \<and>
     (\<forall>row rr. distances (collection_query env (encode env query) top_k) = Some (row # rr) \<longrightarrow>
        i < length row \<and>
        (row ! i \<noteq> Finite 0 \<longrightarrow>
           relevance (sources ! k) = Some (py_round3 (float_sub (Finite 1) (row ! i)))) \<and>
        (row ! i = NaN \<longrightarrow> relevance (sources ! k) = Some NaN) \<and>
        (row ! i = PosInf \<longrightarrow> relevance (sources ! k) = Some NegInf) \<and>
        (row ! i = NegInf \<longrightarrow> relevance (sources ! k) = Some PosInf) \<and>
        (\<forall>d. row ! i = Finite d \<and> d \<noteq> 0 \<and> \<bar>1 - d\<bar> \<le> 4 \<longrightarrow>
           (\<exists>y n v.
              float_sub (Finite 1) (Finite d) = Finite y \<and> \<bar>y - (1 - d)\<bar> \<le> 1 / 2 ^ 51 \<and>
              \<bar>of_int n - y * 1000\<bar> \<le> 1 / 2 \<and>
              (\<bar>of_int n - y * 1000\<bar> = 1 / 2 \<longrightarrow> even n) \<and>
              relevance (sources ! k) = Some (Finite v) \<and>
              round_double (of_int n / 1000) = Finite v \<and>
              \<bar>v - of_int n / 1000\<bar> \<le> 1 / 2 ^ 51 \<and>
              (0 \<le> d \<and> d \<le> 1 \<longrightarrow> 0 \<le> v \<and> v \<le> 1))))"
proof -
  let ?R = "collection_query env (encode env query) top_k"
  from assms have ok: "assemble_results ?R = Inr (context, sources)"
    by (simp add: fst_retrieve_documents)
  show ?thesis
  proof (cases ?R rule: assemble_results_cases)
    case 1
    with ok assemble_results_no_hits [of ?R] assms(2) show ?thesis by auto
  next
    case (2 docs dr)
    from assemble_results_hits [OF ok 2] obtain metas mr where
      m: "metadatas ?R = Some (metas # mr)"
      and src: "sources = map (\<lambda>i. make_source (metas ! i) (projr (get_distance (distances ?R) i)))
              (first_occurrences metas (min (length docs) (length metas)))"
      and dist: "\<forall>i \<in> set (first_occurrences metas (min (length docs) (length metas))).
        \<exists>d. get_distance (distances ?R) i = Inr d"
      by blast
    let ?f = "first_occurrences metas (min (length docs) (length metas))"
    define i where "i = ?f ! k"
    from assms(2) src have k: "k < length ?f" by simp
    then have mem: "i \<in> set ?f" by (simp add: i_def)
    with dist obtain dopt where d: "get_distance (distances ?R) i = Inr dopt" by blast
    have sk: "sources ! k = make_source (metas ! i) dopt"
      using k by (simp add: src i_def [symmetric] d)
    have none: "relevance (sources ! k) = None"
      if "distances ?R = None \<or> distances ?R = Some []"
      using that d by (auto simp: sk relevance_make_source relevance_of_def get_distance_def)
    have some: "i < length row \<and>
        (row ! i \<noteq> Finite 0 \<longrightarrow>
           relevance (sources ! k) = Some (py_round3 (float_sub (Finite 1) (row ! i)))) \<and>
        (row ! i = NaN \<longrightarrow> relevance (sources ! k) = Some NaN) \<and>
        (row ! i = PosInf \<longrightarrow> relevance (sources ! k) = Some NegInf) \<and>
        (row ! i = NegInf \<longrightarrow> relevance (sources ! k) = Some PosInf) \<and>
        (\<forall>d. row ! i = Finite d \<and> d \<noteq> 0 \<and> \<bar>1 - d\<bar> \<le> 4 \<longrightarrow>
           (\<exists>y n v.
              float_sub (Finite 1) (Finite d) = Finite y \<and> \<bar>y - (1 - d)\<bar> \<le> 1 / 2 ^ 51 \<and>
              \<bar>of_int n - y * 1000\<bar> \<le> 1 / 2 \<and>
              (\<bar>of_int n - y * 1000\<bar> = 1 / 2 \<longrightarrow> even n) \<and>
              relevance (sources ! k) = Some (Finite v) \<and>
              round_double (of_int n / 1000) = Finite v \<and>
              \<bar>v - of_int n / 1000\<bar> \<le> 1 / 2 ^ 51 \<and>
              (0 \<le> d \<and> d \<le> 1 \<longrightarrow> 0 \<le> v \<and> v \<le> 1)))"
      if row: "distances ?R = Some (row # rr)" for row rr
    proof -
      from d row have il: "i < length row" and dv: "dopt = Some (row ! i)"
        by (auto simp: get_distance_def split: if_splits)
      have rel: "relevance (sources ! k) = relevance_of (Some (row ! i))"
        by (simp add: sk relevance_make_source dv)
      have truthy: "relevance (sources ! k) = Some (py_round3 (float_sub (Finite 1) (row ! i)))"
        if "row ! i \<noteq> Finite 0"
        using that by (simp add: rel relevance_of_def float_truthy_def)
      have fin: "\<exists>y n v.
              float_sub (Finite 1) (Finite x) = Finite y \<and> \<bar>y - (1 - x)\<bar> \<le> 1 / 2 ^ 51 \<and>
              \<bar>of_int n - y * 1000\<bar> \<le> 1 / 2 \<and>
              (\<bar>of_int n - y * 1000\<bar> = 1 / 2 \<longrightarrow> even n) \<and>
              relevance (sources ! k) = Some (Finite v) \<and>
              round_double (of_int n / 1000) = Finite v \<and>
              \<bar>v - of_int n / 1000\<bar> \<le> 1 / 2 ^ 51 \<and>
              (0 \<le> x \<and> x \<le> 1 \<longrightarrow> 0 \<le> v \<and> v \<le> 1)"
        if x: "row ! i = Finite x" "x \<noteq> 0" "\<bar>1 - x\<bar> \<le> 4" for x
      proof -
        from round_double_small [OF x(3)] obtain y where
          y: "round_double (1 - x) = Finite y" "\<bar>y\<bar> \<le> 4" "\<bar>y - (1 - x)\<bar> \<le> 1 / 2 ^ 51"
          by auto
        from py_round3_small [OF y(2)] obtain n v where
          v: "py_round3 (Finite y) = Finite v" "\<bar>of_int n - y * 1000\<bar> \<le> 1 / 2"
            "\<bar>of_int n - y * 1000\<bar> = 1 / 2 \<longrightarrow> even n" "\<bar>v - of_int n / 1000\<bar> \<le> 1 / 2 ^ 51"
            "round_double (of_int n / 1000) = Finite v"
          by auto
        have sub: "float_sub (Finite 1) (Finite x) = Finite y"
          by (simp add: y(1))
        have ne: "row ! i \<noteq> Finite 0" using x(1,2) by simp
        from truthy [OF ne]
        have "relevance (sources ! k) = Some (py_round3 (float_sub (Finite 1) (Finite x)))"
          by (simp only: x(1))
        then have r: "relevance (sources ! k) = Some (Finite v)"
          by (simp only: sub v(1))
        have unit: "0 \<le> v \<and> v \<le> 1" if "0 \<le> x" "x \<le> 1"
        proof -
          from that have "0 \<le> 1 - x" "1 - x \<le> 1" by simp_all
          from round_double_unit [OF this] y(1) have "0 \<le> y" "y \<le> 1" by auto
          from py_round3_unit [OF this] v(1) show ?thesis by auto
        qed
        from sub y(3) v(2,3,4,5) r unit show ?thesis by blast
      qed
      have nan: "relevance (sources ! k) = Some NaN" if "row ! i = NaN"
        using that by (simp add: rel relevance_of_def float_truthy_def)
      have pinf: "relevance (sources ! k) = Some NegInf" if "row ! i = PosInf"
        using that by (simp add: rel relevance_of_def float_truthy_def)
      have ninf: "relevance (sources ! k) = Some PosInf" if "row ! i = NegInf"
        using that by (simp add: rel relevance_of_def float_truthy_def)
      from il truthy nan pinf ninf fin show ?thesis by blast
    qed
    from 2 m k none some show ?thesis
      by (simp add: i_def [symmetric] sk site_make_source) blast
  qed
qed

theorem relevance_rounded_from_distance_witness:
  "fst (retrieve_documents (example_services tie_hit) (ascii ''a'') 5 init_chatbot) =
     Inr (ascii ''Dougga.'',
          [\<lparr>site = ascii ''Dougga'', source = ascii ''inconnu'', ville = [], periode = [],
             coordonnees = [], relevance = Some (Finite (2531022990582219 / 4503599627370496))\<rparr>]) \<and>
   distances tie_hit = Some [[Finite (7881299347898367 / 18014398509481984)]] \<and>
   py_round3 (float_sub (Finite 1) (Finite (7881299347898367 / 18014398509481984))) =
     Finite (2531022990582219 / 4503599627370496) \<and>
   float_sub (Finite 1) (Finite (7881299347898367 / 18014398509481984)) = Finite (9 / 16) \<and>
   round_half_even (9 / 16 * 1000) = 562"
proof -
  let ?srcs = "[\<lparr>site = ascii ''Dougga'', source = ascii ''inconnu'', ville = [], periode = [],
             coordonnees = [], relevance = Some (Finite (2531022990582219 / 4503599627370496))\<rparr>]"
  let ?d = "Finite (7881299347898367 / 18014398509481984)"
  have k: "0 < length ?srcs" by simp
  from relevance_rounded_from_distance [OF tie_hit_eval k]
  obtain docs dr metas mr i where
    d: "documents (collection_query (example_services tie_hit)
          (encode (example_services tie_hit) (ascii ''a'')) 5) = Some (docs # dr)"
    and m: "metadatas (collection_query (example_services tie_hit)
          (encode (example_services tie_hit) (ascii ''a'')) 5) = Some (metas # mr)"
    and i: "i = first_occurrences metas (min (length docs) (length metas)) ! 0"
    and kk: "0 < length (first_occurrences metas (min (length docs) (length metas)))"
    and some: "\<forall>row rr. distances (collection_query (example_services tie_hit)
          (encode (example_services tie_hit) (ascii ''a'')) 5) = Some (row # rr) \<longrightarrow>
        i < length row \<and>
        (row ! i \<noteq> Finite 0 \<longrightarrow>
           relevance (?srcs ! 0) = Some (py_round3 (float_sub (Finite 1) (row ! i))))"
    by blast
  have ds: "distances (collection_query (example_services tie_hit)
          (encode (example_services tie_hit) (ascii ''a'')) 5) = Some ([?d] # [])"
    by (simp add: example_services_def tie_hit_def)
  with some have "i < length [?d]" by blast
  then have i0: "i = 0" by simp
  from some ds i0 have "relevance (?srcs ! 0) = Some (py_round3 (float_sub (Finite 1) ?d))"
    by fastforce
  then have r: "py_round3 (float_sub (Finite 1) ?d) = Finite (2531022990582219 / 4503599627370496)"
    by simp
  have "1 - (7881299347898367 / 18014398509481984 :: rat) = 10133099161583617 / 18014398509481984"
    by simp
  then have sub: "float_sub (Finite 1) ?d = Finite (9 / 16)"
    by (simp only: float_sub.simps round_double_tie)
  from tie_hit_eval r sub round_half_even_562 show ?thesis
    by (simp add: tie_hit_def)
qed

theorem relevance_in_unit_interval_counterexample:
  "fst (retrieve_documents (example_services far_hit) (ascii ''a'') 5 init_chatbot) =
     Inr (ascii ''Dougga.'',
          [\<lparr>site = ascii ''Dougga'', source = ascii ''inconnu'', ville = [], periode = [],
             coordonnees = [], relevance = Some (Finite (- 1))\<rparr>]) \<and>
   distances far_hit = Some [[Finite 2]] \<and>
   \<not> (0 \<le> (- 1 :: rat) \<and> (- 1 :: rat) \<le> 1)"
  using far_hit_eval by (simp add: far_hit_def)

text \<open>
  Claim C4. The sources list of a retrieval call that returns has at most one entry per
  site; the entries are built from the first result of each site, in the store's order
  (strictly increasing result index), every site among the results is represented, and
  when the store's distances are in ascending order (results in similarity order, each
  distance \<^verbatim>\<open><=\<close> every later one) the distances of the chosen results are ascending too:
  descending similarity among first occurrences.
\<close>

theorem sources_first_occurrence_per_site:
  assumes "fst (retrieve_documents env query top_k self) = Inr (context, sources)"
  shows "distinct (map site sources) \<and>
    (\<forall>docs dr metas mr.
       documents (collection_query env (encode env query) top_k) = Some (docs # dr) \<and> docs \<noteq> [] \<and>
       metadatas (collection_query env (encode env query) top_k) = Some (metas # mr) \<longrightarrow>
       (let firsts = first_occurrences metas (min (length docs) (length metas))
        in sources =
             map (\<lambda>i. make_source (metas ! i)
                    (projr (get_distance (distances (collection_query env (encode env query) top_k)) i)))
               firsts \<and>
           map site sources = map (\<lambda>i. site_name_of (metas ! i)) firsts \<and>
           sorted_wrt (<) firsts \<and>
           set (map site sources) =
             site_name_of ` set (take (min (length docs) (length metas)) metas) \<and>
           (\<forall>row rr. distances (collection_query env (encode env query) top_k) = Some (row # rr) \<and>
              sorted_wrt float_le row \<longrightarrow> sorted_wrt float_le (map ((!) row) firsts))))"
proof -
  let ?R = "collection_query env (encode env query) top_k"
  from assms have ok: "assemble_results ?R = Inr (context, sources)"
    by (simp add: fst_retrieve_documents)
  show ?thesis
  proof (cases ?R rule: assemble_results_cases)
    case 1
    with ok assemble_results_no_hits [of ?R] show ?thesis by auto
  next
    case (2 docs dr)
    from assemble_results_hits [OF ok 2] obtain metas mr where
      m: "metadatas ?R = Some (metas # mr)"
      and src: "sources = map (\<lambda>i. make_source (metas ! i) (projr (get_distance (distances ?R) i)))
              (first_occurrences metas (min (length docs) (length metas)))"
      and dist: "\<forall>i \<in> set (first_occurrences metas (min (length docs) (length metas))).
        \<exists>d. get_distance (distances ?R) i = Inr d"
      by blast
    let ?n = "min (length docs) (length metas)"
    let ?f = "first_occurrences metas ?n"
    have sites: "map site sources = map (\<lambda>i. site_name_of (metas ! i)) ?f"
      by (simp add: src site_make_source comp_def)
    have dst: "distinct (map site sources)"
      unfolding sites by (rule distinct_sites_first_occurrences)
    have cover: "set (map site sources) = site_name_of ` set (take ?n metas)"
    proof (intro equalityI subsetI)
      fix s assume "s \<in> set (map site sources)"
      then obtain i where "i \<in> set ?f" "s = site_name_of (metas ! i)"
        unfolding sites by auto
      then have "i < ?n" "s = site_name_of (take ?n metas ! i)"
        by (simp_all add: set_first_occurrences)
      then show "s \<in> site_name_of ` set (take ?n metas)"
        by (metis imageI length_take min.idem min.left_commute nth_mem min_less_iff_conj)
    next
      fix s assume "s \<in> site_name_of ` set (take ?n metas)"
      then obtain i where i: "i < ?n" "s = site_name_of (metas ! i)"
        by (auto simp: in_set_conv_nth)
      from first_occurrence_exists [OF i(1), of metas] obtain j where
        "j \<in> set ?f" "site_name_of (metas ! j) = site_name_of (metas ! i)"
        by blast
      with i(2) have "s \<in> (\<lambda>i. site_name_of (metas ! i)) ` set ?f"
        by (metis imageI)
      then show "s \<in> set (map site sources)"
        unfolding sites by simp
    qed
    have srt: "sorted_wrt float_le (map ((!) row) ?f)"
      if "distances ?R = Some (row # rr)" "sorted_wrt float_le row" for row rr
    proof (rule sorted_wrt_nths [OF that(2) sorted_first_occurrences])
      show "\<forall>i \<in> set ?f. i < length row"
        using dist that(1) by (auto simp: get_distance_def split: if_splits)
    qed
    from 2 m src sites dst cover srt show ?thesis
      by (auto simp: Let_def sorted_first_occurrences)
  qed
qed

theorem sources_first_occurrence_per_site_witness:
  "fst (retrieve_documents (example_services three_hits) (ascii ''a'') 5 init_chatbot) =
     Inr (ascii ''Carthage.'' @ [10, 10] @ ascii ''Dougga.'' @ [10, 10] @ ascii ''Thermes.'',
          [\<lparr>site = ascii ''Carthage'', source = ascii ''inconnu'', ville = [], periode = [],
             coordonnees = [], relevance = Some (Finite (3 / 4))\<rparr>,
           \<lparr>site = ascii ''Dougga'', source = ascii ''inconnu'', ville = [], periode = [],
             coordonnees = [], relevance = Some (Finite (1 / 2))\<rparr>]) \<and>
   distinct [ascii ''Carthage'', ascii ''Dougga'']"
proof -
  from sources_first_occurrence_per_site [OF three_hits_eval]
  have "distinct [ascii ''Carthage'', ascii ''Dougga'']"
    by simp
  with three_hits_eval show ?thesis
    by simp
qed

text \<open>
  Claim C5. On a chatbot object (created by the constructor and changed only by its
  methods), after every call of \<open>answer\<close> the history holds at most
  \<open>MAX_HISTORY_MESSAGES * 2\<close> entries; the call either leaves the history as it was or
  appends the user and assistant entries and keeps the most recent
  \<open>MAX_HISTORY_MESSAGES * 2\<close> of them, dropping from the front. The bound is 12 entries.
\<close>

theorem history_window_bounded:
  assumes "reachable self"
  shows "length (conversation_history (snd (answer env query top_k self))) \<le>
           MAX_HISTORY_MESSAGES * 2 \<and>
         (conversation_history (snd (answer env query top_k self)) = conversation_history self \<or>
          (\<exists>a. conversation_history (snd (answer env query top_k self)) =
             drop (length (conversation_history self) + 2 - MAX_HISTORY_MESSAGES * 2)
               (conversation_history self @
                 [\<lparr>role = ascii ''user'', content = sanitize_input query\<rparr>,
                  \<lparr>role = ascii ''assistant'', content = a\<rparr>]))) \<and>
         MAX_HISTORY_MESSAGES * 2 = 12"
proof -
  have twelve: "MAX_HISTORY_MESSAGES * 2 = 12"
    by (simp add: MAX_HISTORY_MESSAGES_def)
  have "reachable (snd (answer env query top_k self))"
    using assms by (rule reach_answer)
  then have "length (conversation_history (snd (answer env query top_k self))) \<le>
      MAX_HISTORY_MESSAGES * 2"
    by (rule reachable_history_bound)
  with answer_history_cases [of env query top_k self]
  have "length (conversation_history (snd (answer env query top_k self))) \<le>
           MAX_HISTORY_MESSAGES * 2 \<and>
         (conversation_history (snd (answer env query top_k self)) = conversation_history self \<or>
          (\<exists>a. conversation_history (snd (answer env query top_k self)) =
             drop (length (conversation_history self) + 2 - MAX_HISTORY_MESSAGES * 2)
               (conversation_history self @
                 [\<lparr>role = ascii ''user'', content = sanitize_input query\<rparr>,
                  \<lparr>role = ascii ''assistant'', content = a\<rparr>])))"
    by (auto simp: truncate_history_drop)
  with twelve show ?thesis
    by blast
qed

lemma answer_example_eval:
  "answer (example_services three_hits) (PyStr (ascii ''a'')) 5 init_chatbot =
     (Inr (ascii ''ok'',
           [\<lparr>site = ascii ''Carthage'', source = ascii ''inconnu'', ville = [], periode = [],
              coordonnees = [], relevance = Some (Finite (3 / 4))\<rparr>,
            \<lparr>site = ascii ''Dougga'', source = ascii ''inconnu'', ville = [], periode = [],
              coordonnees = [], relevance = Some (Finite (1 / 2))\<rparr>], 3, 40),
      \<lparr>conversation_history =
         [\<lparr>role = ascii ''user'', content = ascii ''a''\<rparr>,
          \<lparr>role = ascii ''assistant'', content = ascii ''ok''\<rparr>],
       call_log =
         [Embed (ascii ''a''), Query [] 5,
          Generate (build_messages init_chatbot (ascii ''a'')
            (ascii ''Carthage.'' @ [10, 10] @ ascii ''Dougga.'' @ [10, 10] @ ascii ''Thermes.''))]\<rparr>)"
proof -
  have ne: "sanitize_input (PyStr (ascii ''a'')) \<noteq> []"
    unfolding sanitize_a by (simp add: ascii_def)
  have ctx: "ascii ''Carthage.'' @ [10, 10] @ ascii ''Dougga.'' @ [10, 10] @ ascii ''Thermes.'' \<noteq> []"
    by (simp add: ascii_def)
  have ev: "fst (retrieve_documents (example_services three_hits)
      (sanitize_input (PyStr (ascii ''a''))) 5 init_chatbot) =
     Inr (ascii ''Carthage.'' @ [10, 10] @ ascii ''Dougga.'' @ [10, 10] @ ascii ''Thermes.'',
          [\<lparr>site = ascii ''Carthage'', source = ascii ''inconnu'', ville = [], periode = [],
             coordonnees = [], relevance = Some (Finite (3 / 4))\<rparr>,
           \<lparr>site = ascii ''Dougga'', source = ascii ''inconnu'', ville = [], periode = [],
             coordonnees = [], relevance = Some (Finite (1 / 2))\<rparr>])"
    unfolding sanitize_a by (rule three_hits_eval)
  from answer_generates [OF ne ev ctx] obtain a t l where
    g: "fst (generate_response (example_services three_hits)
            (build_messages init_chatbot (sanitize_input (PyStr (ascii ''a'')))
               (ascii ''Carthage.'' @ [10, 10] @ ascii ''Dougga.'' @ [10, 10] @ ascii ''Thermes.''))
            (snd (retrieve_documents (example_services three_hits)
               (sanitize_input (PyStr (ascii ''a''))) 5 init_chatbot))) = Inr (a, t, l)"
    and ans: "answer (example_services three_hits) (PyStr (ascii ''a'')) 5 init_chatbot =
       (Inr (a, [\<lparr>site = ascii ''Carthage'', source = ascii ''inconnu'', ville = [], periode = [],
             coordonnees = [], relevance = Some (Finite (3 / 4))\<rparr>,
           \<lparr>site = ascii ''Dougga'', source = ascii ''inconnu'', ville = [], periode = [],
             coordonnees = [], relevance = Some (Finite (1 / 2))\<rparr>], t, l),
        \<lparr>conversation_history = truncate_history (conversation_history init_chatbot @
            [\<lparr>role = ascii ''user'', content = sanitize_input (PyStr (ascii ''a''))\<rparr>,
             \<lparr>role = ascii ''assistant'', content = a\<rparr>]),
         call_log = call_log init_chatbot @
            [Embed (sanitize_input (PyStr (ascii ''a''))),
             Query (encode (example_services three_hits) (sanitize_input (PyStr (ascii ''a'')))) 5,
             Generate (build_messages init_chatbot (sanitize_input (PyStr (ascii ''a'')))
               (ascii ''Carthage.'' @ [10, 10] @ ascii ''Dougga.'' @ [10, 10] @ ascii ''Thermes.''))]\<rparr>)"
    by blast
  from g have "a = ascii ''ok''" "t = 3" "l = 40"
    by (simp_all add: generate_response_def generate_try_def example_services_def Let_def)
  with ans show ?thesis
    unfolding sanitize_a
    by (simp add: init_chatbot_def truncate_history_def MAX_HISTORY_MESSAGES_def
        example_services_def del: sanitize_input.simps)
qed

theorem history_window_bounded_witness:
  "reachable init_chatbot \<and>
   conversation_history
     (snd (answer (example_services three_hits) (PyStr (ascii ''a'')) 5 init_chatbot)) =
     [\<lparr>role = ascii ''user'', content = ascii ''a''\<rparr>,
      \<lparr>role = ascii ''assistant'', content = ascii ''ok''\<rparr>] \<and>
   length (conversation_history
     (snd (answer (example_services three_hits) (PyStr (ascii ''a'')) 5 init_chatbot))) \<le>
     MAX_HISTORY_MESSAGES * 2"
  using history_window_bounded [OF reach_init, of "example_services three_hits"
      "PyStr (ascii ''a'')" 5]
  by (simp add: answer_example_eval reach_init)

text \<open>
  Claim C6. When the store returns zero hits (no document list, or an empty one),
  retrieval returns the empty context with the empty sources list; and \<open>answer\<close> on an
  empty context returns the message "[X] Aucun document trouve dans la base de donnees.
  Executez d'abord: python ingest.py" (with its accents, and the cross mark U+274C for
  [X]; given below by its code points) with empty sources and zeros, the only calls
  made being the embedding and the store query (no generation call), the history
  unchanged.
\<close>

theorem empty_retrieval_is_terminal:
  "((documents (collection_query env (encode env q) top_k) = None \<or>
     documents (collection_query env (encode env q) top_k) = Some [] \<or>
     (\<exists>dr. documents (collection_query env (encode env q) top_k) = Some ([] # dr))) \<longrightarrow>
      fst (retrieve_documents env q top_k self) = Inr ([], [])) \<and>
   (sanitize_input query \<noteq> [] \<and>
    fst (retrieve_documents env (sanitize_input query) top_k self) = Inr ([], sources) \<longrightarrow>
      fst (answer env query top_k self) =
        Inr ([10060, 32, 65, 117, 99, 117, 110, 32, 100, 111, 99, 117, 109, 101, 110, 116,
             32, 116, 114, 111, 117, 118, 233, 32, 100, 97, 110, 115, 32, 108, 97, 32, 98,
             97, 115, 101, 32, 100, 101, 32, 100, 111, 110, 110, 233, 101, 115, 46, 32, 69,
             120, 233, 99, 117, 116, 101, 122, 32, 100, 39, 97, 98, 111, 114, 100, 58, 32,
             112, 121, 116, 104, 111, 110, 32, 105, 110, 103, 101, 115, 116, 46, 112, 121], [], 0, 0) \<and>
      call_log (snd (answer env query top_k self)) =
        call_log self @
          [Embed (sanitize_input query), Query (encode env (sanitize_input query)) top_k] \<and>
      conversation_history (snd (answer env query top_k self)) = conversation_history self)"
proof (intro conjI impI)
  assume "documents (collection_query env (encode env q) top_k) = None \<or>
     documents (collection_query env (encode env q) top_k) = Some [] \<or>
     (\<exists>dr. documents (collection_query env (encode env q) top_k) = Some ([] # dr))"
  then show "fst (retrieve_documents env q top_k self) = Inr ([], [])"
    unfolding fst_retrieve_documents by (rule assemble_results_no_hits)
next
  assume a: "sanitize_input query \<noteq> [] \<and>
    fst (retrieve_documents env (sanitize_input query) top_k self) = Inr ([], sources)"
  then have eq: "answer env query top_k self =
     (Inr (MSG_NOT_FOUND, [], 0, 0), snd (retrieve_documents env (sanitize_input query) top_k self))"
    by (intro answer_empty_context) simp_all
  show "fst (answer env query top_k self) =
        Inr ([10060, 32, 65, 117, 99, 117, 110, 32, 100, 111, 99, 117, 109, 101, 110, 116,
             32, 116, 114, 111, 117, 118, 233, 32, 100, 97, 110, 115, 32, 108, 97, 32, 98,
             97, 115, 101, 32, 100, 101, 32, 100, 111, 110, 110, 233, 101, 115, 46, 32, 69,
             120, 233, 99, 117, 116, 101, 122, 32, 100, 39, 97, 98, 111, 114, 100, 58, 32,
             112, 121, 116, 104, 111, 110, 32, 105, 110, 103, 101, 115, 116, 46, 112, 121], [], 0, 0)"
    by (simp add: eq MSG_NOT_FOUND_def ascii_def)
  show "call_log (snd (answer env query top_k self)) =
        call_log self @
          [Embed (sanitize_input query), Query (encode env (sanitize_input query)) top_k]"
    by (simp add: eq retrieve_documents_log)
  show "conversation_history (snd (answer env query top_k self)) = conversation_history self"
    by (simp add: eq retrieve_documents_history)
qed

theorem empty_retrieval_is_terminal_witness:
  "fst (retrieve_documents (example_services no_hits) [97] 5 init_chatbot) = Inr ([], []) \<and>
   answer (example_services no_hits) (PyStr [97]) 5 init_chatbot =
     (Inr ([10060, 32, 65, 117, 99, 117, 110, 32, 100, 111, 99, 117, 109, 101, 110, 116,
             32, 116, 114, 111, 117, 118, 233, 32, 100, 97, 110, 115, 32, 108, 97, 32, 98,
             97, 115, 101, 32, 100, 101, 32, 100, 111, 110, 110, 233, 101, 115, 46, 32, 69,
             120, 233, 99, 117, 116, 101, 122, 32, 100, 39, 97, 98, 111, 114, 100, 58, 32,
             112, 121, 116, 104, 111, 110, 32, 105, 110, 103, 101, 115, 116, 46, 112, 121], [], 0, 0),
      \<lparr>conversation_history = [], call_log = [Embed [97], Query [] 5]\<rparr>)"
proof -
  have d: "\<exists>dr. documents (collection_query (example_services no_hits)
      (encode (example_services no_hits) [97]) 5) = Some ([] # dr)"
    by (simp add: example_services_def no_hits_def)
  have sa: "sanitize_input (PyStr [97]) = [97]"
    by (simp add: strip_def is_space_def remove_nul_def MAX_INPUT_LENGTH_def)
  have ne: "[97 :: nat] \<noteq> []"
    by simp
  note inst = empty_retrieval_is_terminal [of "example_services no_hits" "[97]" 5
      init_chatbot "PyStr [97]" "[]", unfolded sa]
  from inst d have r: "fst (retrieve_documents (example_services no_hits) [97] 5 init_chatbot) =
      Inr ([], [])"
    by blast
  with inst ne have
    "fst (answer (example_services no_hits) (PyStr [97]) 5 init_chatbot) =
       Inr ([10060, 32, 65, 117, 99, 117, 110, 32, 100, 111, 99, 117, 109, 101, 110, 116,
             32, 116, 114, 111, 117, 118, 233, 32, 100, 97, 110, 115, 32, 108, 97, 32, 98,
             97, 115, 101, 32, 100, 101, 32, 100, 111, 110, 110, 233, 101, 115, 46, 32, 69,
             120, 233, 99, 117, 116, 101, 122, 32, 100, 39, 97, 98, 111, 114, 100, 58, 32,
             112, 121, 116, 104, 111, 110, 32, 105, 110, 103, 101, 115, 116, 46, 112, 121], [], 0, 0)"
    "call_log (snd (answer (example_services no_hits) (PyStr [97]) 5 init_chatbot)) =
       call_log init_chatbot @ [Embed [97], Query (encode (example_services no_hits) [97]) 5]"
    "conversation_history (snd (answer (example_services no_hits) (PyStr [97]) 5 init_chatbot)) =
       conversation_history init_chatbot"
    by blast+
  then have "answer (example_services no_hits) (PyStr [97]) 5 init_chatbot =
     (Inr ([10060, 32, 65, 117, 99, 117, 110, 32, 100, 111, 99, 117, 109, 101, 110, 116,
             32, 116, 114, 111, 117, 118, 233, 32, 100, 97, 110, 115, 32, 108, 97, 32, 98,
             97, 115, 101, 32, 100, 101, 32, 100, 111, 110, 110, 233, 101, 115, 46, 32, 69,
             120, 233, 99, 117, 116, 101, 122, 32, 100, 39, 97, 98, 111, 114, 100, 58, 32,
             112, 121, 116, 104, 111, 110, 32, 105, 110, 103, 101, 115, 116, 46, 112, 121], [], 0, 0),
      \<lparr>conversation_history = [], call_log = [Embed [97], Query [] 5]\<rparr>)"
    by (cases "answer (example_services no_hits) (PyStr [97]) 5 init_chatbot")
       (simp add: init_chatbot_def example_services_def chatbot.equality)
  with r show ?thesis by simp
qed

text \<open>
  Claim C7. For every input that sanitizes to the empty string, \<open>answer\<close> returns the
  validation message with empty sources, \<open>tokens_used = 0\<close> and \<open>response_time_ms = 0\<close>,
  and the chatbot (its history and the log of calls to the embedder, the store and the
  generation service) is unchanged. The empty string, a whitespace-only string, \<^verbatim>\<open>None\<close>
  and the non-string values all sanitize to the empty string. The validation message is
  the cross mark U+274C followed by " Veuillez entrer une question valide.".
\<close>

theorem answer_rejects_empty_query:
  "(sanitize_input query = [] \<longrightarrow>
      answer env query top_k self = (Inr (MSG_INVALID, [], 0, 0), self)) \<and>
   sanitize_input PyNone = [] \<and> sanitize_input (PyInt i) = [] \<and>
   sanitize_input (PyBool b) = [] \<and> sanitize_input (PyStr []) = [] \<and>
   ((\<forall>c \<in> set q. is_space c) \<longrightarrow> sanitize_input (PyStr q) = []) \<and>
   MSG_INVALID =
     [10060, 32, 86, 101, 117, 105, 108, 108, 101, 122, 32, 101, 110, 116, 114, 101,
      114, 32, 117, 110, 101, 32, 113, 117, 101, 115, 116, 105, 111, 110, 32, 118, 97,
      108, 105, 100, 101, 46]"
  using sanitize_blank [of q] by (simp add: answer_invalid) (simp add: MSG_INVALID_def ascii_def)

theorem answer_rejects_empty_query_witness:
  "\<forall>env top_k self.
     answer env (PyStr [32, 9, 10]) top_k self = (Inr (MSG_INVALID, [], 0, 0), self) \<and>
     call_log (snd (answer env (PyStr [32, 9, 10]) top_k self)) = call_log self"
proof -
  have sp: "\<forall>c \<in> set [32, 9, 10]. is_space c"
    by (simp add: is_space_def)
  have "sanitize_input (PyStr [32, 9, 10]) = []"
    using answer_rejects_empty_query [where q = "[32, 9, 10]"] sp
    by blast
  then show ?thesis
    using answer_rejects_empty_query [of "PyStr [32, 9, 10]"] by simp
qed

text \<open>
  Claim C8. The generation call always returns (no exception leaves it). The messages
  are given by their code points; [X] stands for the cross mark U+274C and accents are
  left out here. On a timeout it returns "(stopwatch) Delai d'attente depasse. Le modele
  prend trop de temps." and on a connection failure "[X] Impossible de se connecter a
  Ollama. Verifiez qu'il est lance avec: ollama serve", both with tokens 0 and latency
  0; on any other exception "[X] Erreur: " followed by the exception's text, with tokens
  0 and latency 0; on status 404 "[X] Modele 'llama3' non trouve. Executez: ollama pull
  llama3" with tokens 0; on any other status but 200 "[X] Erreur API (code N)" with
  tokens 0, where N is the status code in decimal: a string of digits whose value is
  the code, without a leading zero, after a minus sign when the code is negative.
\<close>

theorem generate_response_never_raises:
  "(\<exists>a t l. fst (generate_response env messages self) = Inr (a, t, l)) \<and>
   (post_chat env messages = Raises Timeout \<longrightarrow>
      fst (generate_response env messages self) =
        Inr ([9201, 65039, 32, 68, 233, 108, 97, 105, 32, 100, 39, 97, 116, 116, 101, 110,
             116, 101, 32, 100, 233, 112, 97, 115, 115, 233, 46, 32, 76, 101, 32, 109, 111,
             100, 232, 108, 101, 32, 112, 114, 101, 110, 100, 32, 116, 114, 111, 112, 32,
             100, 101, 32, 116, 101, 109, 112, 115, 46], 0, 0)) \<and>
   (post_chat env messages = Raises ConnectionError \<longrightarrow>
      fst (generate_response env messages self) =
        Inr ([10060, 32, 73, 109, 112, 111, 115, 115, 105, 98, 108, 101, 32, 100, 101, 32,
             115, 101, 32, 99, 111, 110, 110, 101, 99, 116, 101, 114, 32, 224, 32, 79, 108,
             108, 97, 109, 97, 46, 32, 86, 233, 114, 105, 102, 105, 101, 122, 32, 113, 117,
             39, 105, 108, 32, 101, 115, 116, 32, 108, 97, 110, 99, 233, 32, 97, 118, 101,
             99, 58, 32, 111, 108, 108, 97, 109, 97, 32, 115, 101, 114, 118, 101], 0, 0)) \<and>
   (post_chat env messages = Raises (OtherException e) \<longrightarrow>
      fst (generate_response env messages self) =
        Inr ([10060, 32, 69, 114, 114, 101, 117, 114, 58, 32] @ e, 0, 0)) \<and>
   (post_chat env messages = Response 404 body ms \<longrightarrow>
      fst (generate_response env messages self) =
        Inr ([10060, 32, 77, 111, 100, 232, 108, 101, 32, 39, 108, 108, 97, 109, 97, 51, 39,
             32, 110, 111, 110, 32, 116, 114, 111, 117, 118, 233, 46, 32, 69, 120, 233, 99,
             117, 116, 101, 122, 58, 32, 111, 108, 108, 97, 109, 97, 32, 112, 117, 108, 108,
             32, 108, 108, 97, 109, 97, 51], 0, ms)) \<and>
   (post_chat env messages = Response status_code body ms \<and> status_code \<noteq> 200 \<and>
    status_code \<noteq> 404 \<longrightarrow>
      fst (generate_response env messages self) =
        Inr ([10060, 32, 69, 114, 114, 101, 117, 114, 32, 65, 80, 73, 32, 40, 99, 111, 100,
             101, 32] @
             str_of_int status_code @ [41], 0, ms) \<and>
      str_of_int status_code =
        (if status_code < 0 then [45] else []) @ digits (nat \<bar>status_code\<bar>) \<and>
      decimal_value (digits (nat \<bar>status_code\<bar>)) = nat \<bar>status_code\<bar> \<and>
      (\<forall>c \<in> set (digits (nat \<bar>status_code\<bar>)). 48 \<le> c \<and> c \<le> 57) \<and>
      digits (nat \<bar>status_code\<bar>) \<noteq> [] \<and>
      (hd (digits (nat \<bar>status_code\<bar>)) = 48 \<longrightarrow> status_code = 0))"
proof -
  obtain r where "fst (generate_response env messages self) = Inr r"
    using generate_response_returns by blast
  then have ret: "\<exists>a t l. fst (generate_response env messages self) = Inr (a, t, l)"
    by (cases r) simp
  have timeout: "fst (generate_response env messages self) =
        Inr ([9201, 65039, 32, 68, 233, 108, 97, 105, 32, 100, 39, 97, 116, 116, 101, 110,
             116, 101, 32, 100, 233, 112, 97, 115, 115, 233, 46, 32, 76, 101, 32, 109, 111,
             100, 232, 108, 101, 32, 112, 114, 101, 110, 100, 32, 116, 114, 111, 112, 32,
             100, 101, 32, 116, 101, 109, 112, 115, 46], 0, 0)"
    if "post_chat env messages = Raises Timeout"
    using that
    by (simp add: generate_response_def generate_try_def Let_def MSG_TIMEOUT_def ascii_def)
  have conn: "fst (generate_response env messages self) =
        Inr ([10060, 32, 73, 109, 112, 111, 115, 115, 105, 98, 108, 101, 32, 100, 101, 32,
             115, 101, 32, 99, 111, 110, 110, 101, 99, 116, 101, 114, 32, 224, 32, 79, 108,
             108, 97, 109, 97, 46, 32, 86, 233, 114, 105, 102, 105, 101, 122, 32, 113, 117,
             39, 105, 108, 32, 101, 115, 116, 32, 108, 97, 110, 99, 233, 32, 97, 118, 101,
             99, 58, 32, 111, 108, 108, 97, 109, 97, 32, 115, 101, 114, 118, 101], 0, 0)"
    if "post_chat env messages = Raises ConnectionError"
    using that
    by (simp add: generate_response_def generate_try_def Let_def MSG_CONNECTION_def ascii_def)
  have other: "fst (generate_response env messages self) =
        Inr ([10060, 32, 69, 114, 114, 101, 117, 114, 58, 32] @ e, 0, 0)"
    if "post_chat env messages = Raises (OtherException e)"
    using that
    by (simp add: generate_response_def generate_try_def Let_def MSG_EXCEPTION_def ascii_def)
  have notfound: "fst (generate_response env messages self) =
        Inr ([10060, 32, 77, 111, 100, 232, 108, 101, 32, 39, 108, 108, 97, 109, 97, 51, 39,
             32, 110, 111, 110, 32, 116, 114, 111, 117, 118, 233, 46, 32, 69, 120, 233, 99,
             117, 116, 101, 122, 58, 32, 111, 108, 108, 97, 109, 97, 32, 112, 117, 108, 108,
             32, 108, 108, 97, 109, 97, 51], 0, ms)"
    if "post_chat env messages = Response 404 body ms"
    using that
    by (simp add: generate_response_def generate_try_def Let_def MSG_MODEL_NOT_FOUND_def
        ascii_def)
  have api: "fst (generate_response env messages self) =
        Inr ([10060, 32, 69, 114, 114, 101, 117, 114, 32, 65, 80, 73, 32, 40, 99, 111, 100,
             101, 32] @
             str_of_int status_code @ [41], 0, ms)"
    if "post_chat env messages = Response status_code body ms" "status_code \<noteq> 200"
      "status_code \<noteq> 404"
    using that
    by (simp add: generate_response_def generate_try_def Let_def MSG_API_ERROR_def ascii_def)
  have str: "str_of_int status_code =
        (if status_code < 0 then [45] else []) @ digits (nat \<bar>status_code\<bar>)"
    by (simp add: str_of_int_def)
  have lead: "status_code = 0" if "hd (digits (nat \<bar>status_code\<bar>)) = 48"
    using digits_no_leading_zero [OF that] by simp
  have dec: "\<forall>c \<in> set (digits (nat \<bar>status_code\<bar>)). 48 \<le> c \<and> c \<le> 57"
    using digits_are_decimal by blast
  from ret timeout conn other notfound api str lead dec
    decimal_value_digits [of "nat \<bar>status_code\<bar>"] digits_nonempty [of "nat \<bar>status_code\<bar>"]
  show ?thesis
    by blast
qed

theorem generate_response_never_raises_witness:
  "\<forall>enc qry self.
     fst (generate_response
            \<lparr>encode = enc, collection_query = qry, post_chat = (\<lambda>_. Response 500 (Unreadable []) 7)\<rparr>
            [] self) =
       Inr ([10060, 32, 69, 114, 114, 101, 117, 114, 32, 65, 80, 73, 32, 40, 99, 111, 100,
             101, 32, 53, 48, 48, 41], 0, 7) \<and>
     fst (generate_response
            \<lparr>encode = enc, collection_query = qry, post_chat = (\<lambda>_. Raises Timeout)\<rparr>
            [] self) =
       Inr ([9201, 65039, 32, 68, 233, 108, 97, 105, 32, 100, 39, 97, 116, 116, 101, 110,
             116, 101, 32, 100, 233, 112, 97, 115, 115, 233, 46, 32, 76, 101, 32, 109, 111,
             100, 232, 108, 101, 32, 112, 114, 101, 110, 100, 32, 116, 114, 111, 112, 32,
             100, 101, 32, 116, 101, 109, 112, 115, 46], 0, 0)"
proof (intro allI conjI)
  fix enc qry self
  show "fst (generate_response
            \<lparr>encode = enc, collection_query = qry, post_chat = (\<lambda>_. Response 500 (Unreadable []) 7)\<rparr>
            [] self) =
       Inr ([10060, 32, 69, 114, 114, 101, 117, 114, 32, 65, 80, 73, 32, 40, 99, 111, 100,
             101, 32, 53, 48, 48, 41], 0, 7)"
    using generate_response_never_raises
      [where env = "\<lparr>encode = enc, collection_query = qry, post_chat = (\<lambda>_. Response 500 (Unreadable []) 7)\<rparr>"
         and messages = "[]" and self = self and ms = 7 and status_code = 500 and body = "Unreadable []"]
    by (simp add: str_of_int_500)
  show "fst (generate_response
            \<lparr>encode = enc, collection_query = qry, post_chat = (\<lambda>_. Raises Timeout)\<rparr>
            [] self) =
       Inr ([9201, 65039, 32, 68, 233, 108, 97, 105, 32, 100, 39, 97, 116, 116, 101, 110,
             116, 101, 32, 100, 233, 112, 97, 115, 115, 233, 46, 32, 76, 101, 32, 109, 111,
             100, 232, 108, 101, 32, 112, 114, 101, 110, 100, 32, 116, 114, 111, 112, 32,
             100, 101, 32, 116, 101, 109, 112, 115, 46], 0, 0)"
    using generate_response_never_raises
      [where env = "\<lparr>encode = enc, collection_query = qry, post_chat = (\<lambda>_. Raises Timeout)\<rparr>"
         and messages = "[]" and self = self]
    by simp
qed

text \<open>
  Claim C10. When \<open>answer\<close> returns before generation (the query sanitizes to the empty
  string, or retrieval gives an empty context) the history is unchanged; and whenever a
  call of \<open>answer\<close> changes the history, retrieval had returned a non-empty context, the
  generation call was made and returned the answer, and the new history is the old one
  with the user and assistant entries appended, truncated to the window.
\<close>

theorem history_changes_only_after_generation:
  "((sanitize_input query = [] \<or>
     (\<exists>sources. fst (retrieve_documents env (sanitize_input query) top_k self) = Inr ([], sources))) \<longrightarrow>
      conversation_history (snd (answer env query top_k self)) = conversation_history self) \<and>
   (conversation_history (snd (answer env query top_k self)) \<noteq> conversation_history self \<longrightarrow>
      (\<exists>context sources a t l.
         context \<noteq> [] \<and>
         fst (retrieve_documents env (sanitize_input query) top_k self) = Inr (context, sources) \<and>
         fst (generate_response env (build_messages self (sanitize_input query) context)
                (snd (retrieve_documents env (sanitize_input query) top_k self))) = Inr (a, t, l) \<and>
         fst (answer env query top_k self) = Inr (a, sources, t, l) \<and>
         Generate (build_messages self (sanitize_input query) context) \<in>
           set (call_log (snd (answer env query top_k self))) \<and>
         conversation_history (snd (answer env query top_k self)) =
           truncate_history (conversation_history self @
             [\<lparr>role = ascii ''user'', content = sanitize_input query\<rparr>,
              \<lparr>role = ascii ''assistant'', content = a\<rparr>])))"
proof (cases "sanitize_input query = []")
  case True
  then show ?thesis by (simp add: answer_invalid)
next
  case False
  show ?thesis
  proof (cases "fst (retrieve_documents env (sanitize_input query) top_k self)")
    case (Inl e)
    from answer_retrieval_raises [OF False Inl] Inl show ?thesis
      by (simp add: retrieve_documents_history)
  next
    case (Inr r)
    obtain ctx srcs where r: "r = (ctx, srcs)" by (cases r)
    show ?thesis
    proof (cases "ctx = []")
      case True
      with Inr r answer_empty_context [OF False, of env top_k self srcs] show ?thesis
        by (simp add: retrieve_documents_history)
    next
      case nonempty: False
      from Inr r have rd: "fst (retrieve_documents env (sanitize_input query) top_k self) =
          Inr (ctx, srcs)" by simp
      from answer_generates [OF False rd nonempty] obtain a t l where
        "fst (generate_response env (build_messages self (sanitize_input query) ctx)
            (snd (retrieve_documents env (sanitize_input query) top_k self))) = Inr (a, t, l)"
        "answer env query top_k self =
          (Inr (a, srcs, t, l),
           \<lparr>conversation_history = truncate_history (conversation_history self @
              [\<lparr>role = ascii ''user'', content = sanitize_input query\<rparr>,
               \<lparr>role = ascii ''assistant'', content = a\<rparr>]),
            call_log = call_log self @
              [Embed (sanitize_input query), Query (encode env (sanitize_input query)) top_k,
               Generate (build_messages self (sanitize_input query) ctx)]\<rparr>)"
        by blast
      with False rd nonempty show ?thesis
        by auto
    qed
  qed
qed

theorem history_changes_only_after_generation_witness:
  "conversation_history (snd (answer (example_services three_hits) (PyStr [32, 9]) 5 init_chatbot)) =
     conversation_history init_chatbot \<and>
   conversation_history (snd (answer (example_services no_hits) (PyStr (ascii ''a'')) 5 init_chatbot)) =
     conversation_history init_chatbot \<and>
   conversation_history (snd (answer (example_services three_hits) (PyStr (ascii ''a'')) 5 init_chatbot)) \<noteq>
     conversation_history init_chatbot \<and>
   Generate (build_messages init_chatbot (ascii ''a'')
       (ascii ''Carthage.'' @ [10, 10] @ ascii ''Dougga.'' @ [10, 10] @ ascii ''Thermes.'')) \<in>
     set (call_log (snd (answer (example_services three_hits) (PyStr (ascii ''a'')) 5 init_chatbot)))"
proof -
  have blank: "sanitize_input (PyStr [32, 9]) = []"
    by (simp add: strip_def is_space_def remove_nul_def)
  have c1: "conversation_history (snd (answer (example_services three_hits) (PyStr [32, 9]) 5 init_chatbot)) =
     conversation_history init_chatbot"
    using history_changes_only_after_generation
      [of "PyStr [32, 9]" "example_services three_hits" 5 init_chatbot] blank
    by blast
  have "\<exists>sources. fst (retrieve_documents (example_services no_hits)
      (sanitize_input (PyStr (ascii ''a''))) 5 init_chatbot) = Inr ([], sources)"
    unfolding no_hits_eval by simp
  then have c2: "conversation_history (snd (answer (example_services no_hits) (PyStr (ascii ''a'')) 5 init_chatbot)) =
     conversation_history init_chatbot"
    using history_changes_only_after_generation
      [of "PyStr (ascii ''a'')" "example_services no_hits" 5 init_chatbot]
    by blast
  show ?thesis
    using c1 c2 unfolding answer_example_eval by (simp add: init_chatbot_def)
qed

section \<open>The chunker loop keeps the overlap\<close>

lemma lastn_all: "length xs \<le> n \<Longrightarrow> lastn n xs = xs"
  by (simp add: lastn_def)

lemma set_lastn: "set (lastn n xs) \<subseteq> set xs"
  by (simp add: lastn_def set_drop_subset)

lemma split_ws_join_snoc:
  "split_ws (join [32] (xs @ [x])) = split_ws (join [32] xs) @ split_ws x"
  by (simp add: split_ws_join)

lemma successively_snoc:
  "successively P (xs @ [x]) \<longleftrightarrow> successively P xs \<and> (xs \<noteq> [] \<longrightarrow> P (last xs) x)"
  by (auto simp: successively_append_iff)

lemma strict_prefix_append: "strict_prefix xs ys \<Longrightarrow> strict_prefix xs (ys @ zs)"
  by (auto simp: strict_prefix_def prefix_def)

lemma strict_prefix_same_append: "zs \<noteq> [] \<Longrightarrow> strict_prefix xs (xs @ zs)"
  by (simp add: strict_prefix_def)

lemma seeded_overlaps: "seeded n a b \<Longrightarrow> overlaps n a b"
  by (simp add: seeded_def overlaps_def strict_prefix_def)

lemma successively_seeded_overlaps:
  "successively (seeded n) xs \<Longrightarrow> successively (overlaps n) xs"
  by (erule successively_mono) (rule seeded_overlaps)

lemma chunker_inv_init:
  "chunker_inv n \<lparr>chunks = [], current_chunk = [], current_word_count = 0\<rparr>"
  by (simp add: chunker_inv_def)

lemma chunk_step_inv:
  assumes pos: "0 < overlap" and inv: "chunker_inv (nat overlap) st"
  shows "chunker_inv (nat overlap) (chunk_step target_words overlap st sentence0)"
proof (cases "strip sentence0 = []")
  case True
  with inv show ?thesis by (simp add: chunk_step_def)
next
  case False
  let ?n = "nat overlap"
  let ?s = "strip sentence0"
  let ?cur = "current_chunk st"
  let ?pw = "split_ws (join [32] ?cur)"
  have ws: "split_ws ?s \<noteq> []"
    using False by (simp add: split_ws_strip split_ws_Nil_iff)
  from inv have i1: "successively (seeded ?n) (chunks st)"
    and i2: "chunks st \<noteq> [] \<Longrightarrow> strict_prefix (lastn ?n (split_ws (last (chunks st)))) ?pw"
    and i4: "?cur \<noteq> [] \<Longrightarrow> ?pw \<noteq> []"
    by (simp_all add: chunker_inv_def)
  show ?thesis
  proof (cases "current_word_count st + int (length (split_ws ?s)) \<le> target_words \<or> ?cur = []")
    case True
    then have step: "chunk_step target_words overlap st sentence0 =
        st\<lparr>current_chunk := ?cur @ [?s],
           current_word_count := current_word_count st + int (length (split_ws ?s))\<rparr>"
      using False by (simp add: chunk_step_def Let_def)
    show ?thesis
      unfolding step chunker_inv_def using i1 i2 ws
      by (auto simp: split_ws_join_snoc intro: strict_prefix_append)
  next
    case else: False
    then have cur: "?cur \<noteq> []" by simp
    let ?ct = "strip (join [32] ?cur)"
    let ?ow = "lastn ?n ?pw"
    have ct_words: "split_ws ?ct = ?pw" by (rule split_ws_strip)
    have ct: "?ct \<noteq> []"
      using i4 [OF cur] by (simp add: split_ws_Nil_iff)
    have ow: "(if overlap \<le> int (length ?pw) then lastn ?n ?pw else ?pw) = ?ow"
      by (simp add: lastn_all)
    have step: "chunk_step target_words overlap st sentence0 =
        \<lparr>chunks = chunks st @ [?ct],
         current_chunk = [join [32] ?ow] @ [?s],
         current_word_count = int (length ?ow) + int (length (split_ws ?s))\<rparr>"
      using False else pos ct by (simp add: chunk_step_def Let_def ow)
    have clean: "\<forall>x \<in> set ?ow. clean_word x"
      using set_lastn [of ?n ?pw] split_ws_clean by blast
    have "join [32] ([join [32] ?ow] @ [?s]) = join [32] ?ow @ [32] @ ?s"
      by simp
    then have "split_ws (join [32] ([join [32] ?ow] @ [?s])) = split_ws (join [32] ?ow) @ split_ws ?s"
      by (simp only: split_ws_append_space)
    then have seed: "split_ws (join [32] ([join [32] ?ow] @ [?s])) = ?ow @ split_ws ?s"
      by (simp only: split_ws_join_words [OF clean])
    have "successively (seeded ?n) (chunks st @ [?ct])"
      using i1 i2 by (simp add: successively_snoc seeded_def ct_words)
    then show ?thesis
      unfolding step chunker_inv_def using ws
      by (simp add: seed ct_words strict_prefix_same_append del: append.simps)
  qed
qed

lemma foldl_chunk_step_inv:
  "0 < overlap \<Longrightarrow> chunker_inv (nat overlap) st \<Longrightarrow>
   chunker_inv (nat overlap) (foldl (chunk_step target_words overlap) st sentences)"
  by (induction sentences arbitrary: st) (simp_all add: chunk_step_inv)

lemma close_last_seeded:
  assumes "chunker_inv n st"
  shows "successively (seeded n) (close_last st)"
proof -
  from assms have i1: "successively (seeded n) (chunks st)"
    and i2: "chunks st \<noteq> [] \<Longrightarrow>
       strict_prefix (lastn n (split_ws (last (chunks st))))
         (split_ws (join [32] (current_chunk st)))"
    by (simp_all add: chunker_inv_def)
  have "split_ws (strip (join [32] (current_chunk st))) = split_ws (join [32] (current_chunk st))"
    by (rule split_ws_strip)
  with i1 i2 show ?thesis
    by (auto simp: close_last_def Let_def successively_snoc seeded_def)
qed

lemma built_chunks_seeded:
  "0 < overlap \<Longrightarrow> successively (seeded (nat overlap)) (built_chunks text target_words overlap)"
  unfolding built_chunks_def
  by (intro close_last_seeded foldl_chunk_step_inv chunker_inv_init)

lemma built_chunks_overlap:
  "0 < overlap \<Longrightarrow> successively (overlaps (nat overlap)) (built_chunks text target_words overlap)"
  by (intro successively_seeded_overlaps built_chunks_seeded)

lemma successively_filter_mono:
  assumes "successively P xs" and mono: "\<And>a b. P a b \<Longrightarrow> Q a \<Longrightarrow> Q b"
  shows "successively P (filter Q xs)"
  using assms(1)
proof (induction xs)
  case Nil
  show ?case by simp
next
  case (Cons a xs)
  then have tl: "successively P xs"
    by (cases xs) simp_all
  show ?case
  proof (cases "Q a")
    case False
    with Cons.IH [OF tl] show ?thesis by simp
  next
    case True
    have "successively P (a # ys) \<Longrightarrow> Q a \<Longrightarrow> filter Q (a # ys) = a # ys" for ys
    proof (induction ys arbitrary: a)
      case Nil
      then show ?case by simp
    next
      case (Cons b ys)
      then have "Q b" "successively P (b # ys)" using mono by auto
      with Cons.IH [of b] Cons.prems show ?case by simp
    qed
    with Cons.prems True show ?thesis by simp
  qed
qed

text \<open>
  A chunk seeded from a chunk of at least \<open>m\<close> words, with an overlap of at least \<open>m - 1\<close>,
  has at least \<open>m\<close> words itself: the seed and one word more.
\<close>

lemma seeded_long:
  assumes "seeded n a b" "m \<le> n + 1" "m \<le> length (split_ws a)"
  shows "m \<le> length (split_ws b)"
proof -
  from assms(1) have "length (lastn n (split_ws a)) < length (split_ws b)"
    unfolding seeded_def by (rule prefix_length_less)
  with assms(2,3) show ?thesis
    by (simp add: length_lastn)
qed

lemma text_to_chunks_seeded:
  assumes "int MIN_CHUNK_WORDS \<le> overlap + 1"
  shows "successively (seeded (nat overlap)) (text_to_chunks text target_words overlap)"
  unfolding text_to_chunks_def
proof (rule successively_filter_mono)
  have "0 < overlap" using assms by (simp add: MIN_CHUNK_WORDS_def)
  then show "successively (seeded (nat overlap)) (built_chunks text target_words overlap)"
    by (rule built_chunks_seeded)
next
  fix a b
  assume "seeded (nat overlap) a b" "MIN_CHUNK_WORDS \<le> length (split_ws a)"
  moreover have "MIN_CHUNK_WORDS \<le> nat overlap + 1" using assms by simp
  ultimately show "MIN_CHUNK_WORDS \<le> length (split_ws b)"
    by (intro seeded_long [of "nat overlap" a b MIN_CHUNK_WORDS])
qed

lemma text_to_chunks_overlap:
  assumes "int MIN_CHUNK_WORDS \<le> overlap + 1"
  shows "successively (overlaps (nat overlap)) (text_to_chunks text target_words overlap)"
  using assms by (intro successively_seeded_overlaps text_to_chunks_seeded)

section \<open>Evaluation of the example texts, and blank texts\<close>

lemmas chunker_defs =
  text_to_chunks_def built_chunks_def close_last_def chunk_step_def sentence_split_def
  split_ws_def strip_def lastn_def is_space_def is_sentence_end_def ascii_def
  MIN_CHUNK_WORDS_def Let_def

lemma gap_text_eval:
  "text_to_chunks gap_text 20 2 = [ascii ''a b c d e f g h i j k l m n o p.'', ascii ''t u. A B C D E F G H I J K L M N O P.'']"
  by (simp add: gap_text_def chunker_defs)

lemma gap_built_eval:
  "built_chunks gap_text 20 2 = [ascii ''a b c d e f g h i j k l m n o p.'', ascii ''o p. q r s t u.'', ascii ''t u. A B C D E F G H I J K L M N O P.'']"
  by (simp add: gap_text_def chunker_defs)

lemma tight_text_eval:
  "text_to_chunks tight_text 16 14 = [ascii ''a b c d e f g h i j k l m n o p.'', ascii ''c d e f g h i j k l m n o p. q.'', ascii ''d e f g h i j k l m n o p. q. A B C D E F G H I J K L M N O P.'']"
  by (simp add: tight_text_def chunker_defs)

text \<open>
  The same text with an overlap of 13 words: the middle chunk has 14 words and is dropped,
  and the two chunks left do not overlap. So \<open>MIN_CHUNK_WORDS - 1\<close> is the least overlap
  for which the emitted chunks always overlap.
\<close>

lemma tight_text_thirteen:
  "text_to_chunks tight_text 16 13 = [ascii ''a b c d e f g h i j k l m n o p.'', ascii ''e f g h i j k l m n o p. q. A B C D E F G H I J K L M N O P.''] \<and>
   \<not> prefix (lastn 13 (split_ws (ascii ''a b c d e f g h i j k l m n o p.'')))
       (split_ws (ascii ''e f g h i j k l m n o p. q. A B C D E F G H I J K L M N O P.''))"
  by (simp add: tight_text_def chunker_defs)

lemma sentence_split_from_blank:
  "\<forall>c \<in> set piece. is_space c \<Longrightarrow> \<forall>c \<in> set s. is_space c \<Longrightarrow>
   \<forall>p \<in> set (sentence_split_from piece after_end s). strip p = []"
proof (induction piece after_end s rule: sentence_split_from.induct)
  case (1 piece after_end)
  then have "strip piece = []" by (simp only: strip_Nil_iff)
  then show ?case by (simp only: sentence_split_from.simps list.set ball_simps)
next
  case (2 piece after_end c cs)
  from "2.prems"(2) have c: "is_space c" and cs: "\<forall>x \<in> set cs. is_space x"
    by simp_all
  have pc: "strip piece = []"
    using "2.prems"(1) by (simp only: strip_Nil_iff)
  show ?case
  proof (cases after_end)
    case True
    have dw: "\<forall>x \<in> set (dropWhile is_space cs). is_space x"
      using cs by (auto dest: set_dropWhileD)
    have e: "\<forall>x \<in> set ([]::str). is_space x" by simp
    from True c have t: "after_end \<and> is_space c" by simp
    have eq: "sentence_split_from piece after_end (c # cs) =
        piece # sentence_split_from [] False (dropWhile is_space cs)"
      using t by (simp only: sentence_split_from.simps simp_thms if_True)
    from "2.IH"(1) [OF t e dw] pc show ?thesis
      unfolding eq by simp
  next
    case False
    then have f: "\<not> (after_end \<and> is_space c)" by simp
    have eq: "sentence_split_from piece after_end (c # cs) =
        sentence_split_from (piece @ [c]) (is_sentence_end c) cs"
      using f by (simp only: sentence_split_from.simps simp_thms if_False)
    have p: "\<forall>x \<in> set (piece @ [c]). is_space x"
      using "2.prems"(1) c by simp
    from "2.IH"(2) [OF f p cs] show ?thesis
      unfolding eq .
  qed
qed

lemma chunk_step_blank: "strip s = [] \<Longrightarrow> chunk_step target_words overlap st s = st"
  by (simp add: chunk_step_def)

lemma foldl_chunk_step_blank:
  "\<forall>s \<in> set ss. strip s = [] \<Longrightarrow> foldl (chunk_step target_words overlap) st ss = st"
  by (induction ss arbitrary: st) (simp_all add: chunk_step_blank)

lemma text_to_chunks_blank:
  assumes "strip text = []"
  shows "text_to_chunks text target_words overlap = []"
proof -
  from assms have "\<forall>c \<in> set text. is_space c"
    by (simp add: strip_Nil_iff)
  then have "\<forall>p \<in> set (sentence_split text). strip p = []"
    unfolding sentence_split_def by (intro sentence_split_from_blank) simp_all
  then show ?thesis
    by (simp add: text_to_chunks_def built_chunks_def foldl_chunk_step_blank close_last_def)
qed

section \<open>The claims about chunking and indexing\<close>

text \<open>
  Claim C2, as amended. The claim is stated for every overlap \<open>O > 0\<close>. The chunker seeds
  each chunk with the last \<open>O\<close> words of the chunk it has just closed, and only then drops
  the chunks shorter than \<open>MIN_CHUNK_WORDS\<close>; with a small \<open>O\<close> a dropped chunk can stand
  between two emitted ones, which then do not overlap (the counterexample below, with
  \<open>O = 2\<close>). What holds: for every text and target, when \<open>O\<close> is at least
  \<open>MIN_CHUNK_WORDS - 1 = 14\<close>, the last \<open>O\<close> words of every emitted chunk (all of its
  words when it has fewer) are the first words of the next emitted chunk; so it is for
  the default target and the default overlap of 30 words; and for every \<open>O > 0\<close> the same
  holds of the chunks as built, before the filter.
\<close>

theorem consecutive_chunks_overlap:
  "(0 < overlap \<longrightarrow>
      (\<forall>i. Suc i < length (built_chunks text target_words overlap) \<longrightarrow>
         prefix (lastn (nat overlap) (split_ws (built_chunks text target_words overlap ! i)))
           (split_ws (built_chunks text target_words overlap ! Suc i)))) \<and>
   (int MIN_CHUNK_WORDS \<le> overlap + 1 \<longrightarrow>
      (\<forall>i. Suc i < length (text_to_chunks text target_words overlap) \<longrightarrow>
         prefix (lastn (nat overlap) (split_ws (text_to_chunks text target_words overlap ! i)))
           (split_ws (text_to_chunks text target_words overlap ! Suc i)))) \<and>
   (\<forall>i. Suc i < length (text_to_chunks text CHUNK_WORD_TARGET CHUNK_OVERLAP_WORDS) \<longrightarrow>
      prefix (lastn 30 (split_ws (text_to_chunks text CHUNK_WORD_TARGET CHUNK_OVERLAP_WORDS ! i)))
        (split_ws (text_to_chunks text CHUNK_WORD_TARGET CHUNK_OVERLAP_WORDS ! Suc i)))"
proof -
  have "int MIN_CHUNK_WORDS \<le> CHUNK_OVERLAP_WORDS + 1" and n: "nat CHUNK_OVERLAP_WORDS = 30"
    by (simp_all add: MIN_CHUNK_WORDS_def CHUNK_OVERLAP_WORDS_def)
  then have "successively (overlaps 30) (text_to_chunks text CHUNK_WORD_TARGET CHUNK_OVERLAP_WORDS)"
    using text_to_chunks_overlap [of CHUNK_OVERLAP_WORDS "text" CHUNK_WORD_TARGET] by simp
  then show ?thesis
    using built_chunks_overlap [of overlap "text" target_words]
      text_to_chunks_overlap [of overlap "text" target_words]
    by (simp add: successively_conv_nth overlaps_def)
qed

theorem consecutive_chunks_overlap_witness:
  "text_to_chunks tight_text 16 14 = [ascii ''a b c d e f g h i j k l m n o p.'', ascii ''c d e f g h i j k l m n o p. q.'', ascii ''d e f g h i j k l m n o p. q. A B C D E F G H I J K L M N O P.''] \<and>
   prefix (lastn 14 (split_ws (ascii ''a b c d e f g h i j k l m n o p.''))) (split_ws (ascii ''c d e f g h i j k l m n o p. q.'')) \<and>
   prefix (lastn 14 (split_ws (ascii ''c d e f g h i j k l m n o p. q.''))) (split_ws (ascii ''d e f g h i j k l m n o p. q. A B C D E F G H I J K L M N O P.'')) \<and>
   lastn 14 (split_ws (ascii ''a b c d e f g h i j k l m n o p.'')) = [ascii ''c'', ascii ''d'', ascii ''e'', ascii ''f'', ascii ''g'', ascii ''h'', ascii ''i'', ascii ''j'', ascii ''k'', ascii ''l'', ascii ''m'', ascii ''n'', ascii ''o'', ascii ''p.''] \<and>
   lastn 14 (split_ws (ascii ''c d e f g h i j k l m n o p. q.'')) = [ascii ''d'', ascii ''e'', ascii ''f'', ascii ''g'', ascii ''h'', ascii ''i'', ascii ''j'', ascii ''k'', ascii ''l'', ascii ''m'', ascii ''n'', ascii ''o'', ascii ''p.'', ascii ''q.'']"
proof -
  have h: "int MIN_CHUNK_WORDS \<le> 14 + 1" by (simp add: MIN_CHUNK_WORDS_def)
  have l: "Suc 0 < length (text_to_chunks tight_text 16 14)"
    "Suc (Suc 0) < length (text_to_chunks tight_text 16 14)"
    by (simp_all add: tight_text_eval)
  from h l have "prefix (lastn (nat 14) (split_ws (text_to_chunks tight_text 16 14 ! 0)))
           (split_ws (text_to_chunks tight_text 16 14 ! Suc 0))"
    and "prefix (lastn (nat 14) (split_ws (text_to_chunks tight_text 16 14 ! Suc 0)))
           (split_ws (text_to_chunks tight_text 16 14 ! Suc (Suc 0)))"
    using consecutive_chunks_overlap [of 14 tight_text 16] by blast+
  moreover have "lastn 14 (split_ws (ascii ''a b c d e f g h i j k l m n o p.'')) = [ascii ''c'', ascii ''d'', ascii ''e'', ascii ''f'', ascii ''g'', ascii ''h'', ascii ''i'', ascii ''j'', ascii ''k'', ascii ''l'', ascii ''m'', ascii ''n'', ascii ''o'', ascii ''p.'']"
    by (simp add: split_ws_def lastn_def is_space_def ascii_def)
  moreover have "lastn 14 (split_ws (ascii ''c d e f g h i j k l m n o p. q.'')) = [ascii ''d'', ascii ''e'', ascii ''f'', ascii ''g'', ascii ''h'', ascii ''i'', ascii ''j'', ascii ''k'', ascii ''l'', ascii ''m'', ascii ''n'', ascii ''o'', ascii ''p.'', ascii ''q.'']"
    by (simp add: split_ws_def lastn_def is_space_def ascii_def)
  ultimately show ?thesis
    by (simp add: tight_text_eval)
qed

theorem consecutive_chunks_overlap_counterexample:
  "text_to_chunks gap_text 20 2 = [ascii ''a b c d e f g h i j k l m n o p.'', ascii ''t u. A B C D E F G H I J K L M N O P.''] \<and>
   lastn 2 (split_ws (ascii ''a b c d e f g h i j k l m n o p.'')) = [ascii ''o'', ascii ''p.''] \<and>
   take 2 (split_ws (ascii ''t u. A B C D E F G H I J K L M N O P.'')) = [ascii ''t'', ascii ''u.''] \<and>
   \<not> prefix (lastn 2 (split_ws (ascii ''a b c d e f g h i j k l m n o p.''))) (split_ws (ascii ''t u. A B C D E F G H I J K L M N O P.''))"
  by (simp add: gap_text_eval) (simp add: split_ws_def lastn_def is_space_def ascii_def)

text \<open>
  Claim C3, as amended. The claim promises one fallback chunk whenever the chunker yields
  no valid chunk. The indexer skips a document whose enriched text is blank before it
  chunks it, so such a document persists nothing (the counterexample below). What holds:
  for every document whose enriched text is not blank, the persisted chunks are the
  chunker's, each of at least \<open>MIN_CHUNK_WORDS\<close> words, unless the chunker yields none, in
  which case exactly one chunk, the whole enriched text, is persisted; a document whose
  enriched text is blank persists no chunk.
\<close>

theorem persisted_chunks_min_words:
  "(strip (create_rich_text doc) \<noteq> [] \<and>
    text_to_chunks (create_rich_text doc) CHUNK_WORD_TARGET CHUNK_OVERLAP_WORDS \<noteq> [] \<longrightarrow>
      persisted_chunks doc =
        text_to_chunks (create_rich_text doc) CHUNK_WORD_TARGET CHUNK_OVERLAP_WORDS \<and>
      (\<forall>c \<in> set (persisted_chunks doc). MIN_CHUNK_WORDS \<le> length (split_ws c))) \<and>
   (strip (create_rich_text doc) \<noteq> [] \<and>
    text_to_chunks (create_rich_text doc) CHUNK_WORD_TARGET CHUNK_OVERLAP_WORDS = [] \<longrightarrow>
      persisted_chunks doc = [create_rich_text doc]) \<and>
   (strip (create_rich_text doc) = [] \<longrightarrow>
      persisted_chunks doc = [] \<and>
      text_to_chunks (create_rich_text doc) CHUNK_WORD_TARGET CHUNK_OVERLAP_WORDS = [])"
proof -
  have "\<forall>c \<in> set (text_to_chunks t a b). MIN_CHUNK_WORDS \<le> length (split_ws c)" for t a b
    by (simp add: text_to_chunks_def)
  then show ?thesis
    by (auto simp: persisted_chunks_def staged_chunks_def Let_def text_to_chunks_blank)
qed

lemma carthage_text: "create_rich_text carthage_document = ascii ''Site arch'' @ [233] @ ascii ''ologique: Carthage.''"
  by (simp add: create_rich_text_def carthage_document_def empty_document_def ascii_def)

theorem persisted_chunks_min_words_witness:
  "text_to_chunks (create_rich_text carthage_document) CHUNK_WORD_TARGET CHUNK_OVERLAP_WORDS = [] \<and>
   persisted_chunks carthage_document = [ascii ''Site arch'' @ [233] @ ascii ''ologique: Carthage.'']"
proof -
  have t: "text_to_chunks (create_rich_text carthage_document) CHUNK_WORD_TARGET CHUNK_OVERLAP_WORDS = []"
    unfolding carthage_text
    by (simp add: chunker_defs CHUNK_WORD_TARGET_def CHUNK_OVERLAP_WORDS_def)
  have s: "strip (create_rich_text carthage_document) \<noteq> []"
    unfolding carthage_text by (simp add: strip_def is_space_def ascii_def)
  from persisted_chunks_min_words [of carthage_document] t s
  have "persisted_chunks carthage_document = [create_rich_text carthage_document]"
    by blast
  with t show ?thesis
    by (simp add: carthage_text)
qed

theorem fallback_chunk_counterexample:
  "create_rich_text empty_document = [] \<and>
   text_to_chunks (create_rich_text empty_document) CHUNK_WORD_TARGET CHUNK_OVERLAP_WORDS = [] \<and>
   persisted_chunks empty_document = [] \<and>
   persisted_chunks empty_document \<noteq> [create_rich_text empty_document]"
proof -
  have e: "create_rich_text empty_document = []"
    by (simp add: create_rich_text_def empty_document_def)
  show ?thesis
    unfolding e
    by (simp add: persisted_chunks_def staged_chunks_def e strip_def text_to_chunks_blank)
qed

end
